theory Spec2Isabelle
  imports Main "HOL-Library.Word"
begin

unbundle bit_operations_syntax

section \<open>The picture decoder of images_sdl.cpp\<close>

text \<open>
  A shallow embedding of \<^verbatim>\<open>src/Source_Files/Misc/images_sdl.cpp\<close>: the PackBits scan-line
  unpacker \<^verbatim>\<open>unpack_bits\<close>, the three depth-specific decompressors, the dispatch
  \<^verbatim>\<open>uncompress_picture\<close> and the opcode interpreter \<^verbatim>\<open>picture_to_surface\<close>.

  The resource is a list of bytes and a C pointer into it is an offset. The decompressors
  receive a raw pointer and no length, and the source checks no bound: a dereference at
  an offset that is not inside the buffer is undefined behaviour in C. The model makes
  that outcome a value, \<open>Inl ReadOutOfBounds\<close> (and \<open>Inl WriteOutOfBounds\<close> for
  a store outside the destination): it records that the source performs the access, not
  that the source detects it. \<open>NullDereference\<close> is the store through a \<^verbatim>\<open>NULL\<close>
  palette. The two \<^verbatim>\<open>default\<close> cases that print "Unimplemented ..." on \<^verbatim>\<open>stderr\<close> and
  call \<^verbatim>\<open>exit(1)\<close> are \<open>UnimplementedPacking\<close> and \<open>UnimplementedOpcode\<close>, with the
  value printed. \<open>TruncatedInput\<close> is the error of the cursor over the resource, which
  is SDL's and specified in the spec only.
\<close>

type_synonym uint8 = "8 word"
type_synonym uint16 = "16 word"
type_synonym uint32 = "32 word"

datatype fault =
    ReadOutOfBounds
  | WriteOutOfBounds
  | NullDereference
  | TruncatedInput
  | UnimplementedPacking nat
  | UnimplementedOpcode uint16

definition bnd :: "fault + 'a \<Rightarrow> ('a \<Rightarrow> fault + 'b) \<Rightarrow> fault + 'b" where
  "bnd m f = (case m of Inl e \<Rightarrow> Inl e | Inr x \<Rightarrow> f x)"

subsection \<open>unpack_bits\<close>

text \<open>\<^verbatim>\<open>src[i]\<close> and \<^verbatim>\<open>*src\<close>: the byte at an offset of the resource.\<close>

definition peek :: "uint8 list \<Rightarrow> nat \<Rightarrow> fault + uint8" where
  "peek buf i = (if i < length buf then Inr (buf ! i) else Inl ReadOutOfBounds)"

text \<open>
  The template parameter \<^verbatim>\<open>T\<close> is the word type \<open>'a word\<close>; \<^verbatim>\<open>sizeof(T)\<close> is its
  length in bytes. The source instantiates it with \<^verbatim>\<open>uint8\<close> and \<^verbatim>\<open>uint16\<close>.
\<close>

definition sizeof :: "'a::len word \<Rightarrow> nat" where
  "sizeof d = LENGTH('a) div 8"

text \<open>
  The unit read that both kinds of run share:
  \<^verbatim>\<open>if (sizeof(T) == 1) { data = *src++; src_count--; }
  else { data = (src[0] << 8) | src[1]; src += 2; src_count -= 2; }\<close>
  The result is the unit and the number of bytes \<^verbatim>\<open>src\<close> advanced.
\<close>

definition read_data :: "uint8 list \<Rightarrow> nat \<Rightarrow> fault + ('a::len word \<times> nat)" where
  "read_data buf src =
     (if sizeof (0 :: 'a word) = 1 then
        bnd (peek buf src) (\<lambda>b. Inr (ucast b, 1))
      else
        bnd (peek buf src) (\<lambda>b0.
        bnd (peek buf (src + 1)) (\<lambda>b1.
        Inr (push_bit 8 (ucast b0) OR ucast b1, 2))))"

text \<open>
  The variables of the loop: the source pointer (an offset), the remaining count
  \<^verbatim>\<open>src_count\<close> (a C \<^verbatim>\<open>int\<close>: at most 65535 at the start and only decremented,
  so it never overflows), and the units stored through \<^verbatim>\<open>*dst++\<close> so far, in order.
\<close>

record 'a unpack_state =
  src :: nat
  src_count :: int
  dst :: "'a list"

text \<open>The uncompressed run: \<^verbatim>\<open>for (int i=0; i<size; i++) { read a unit; *dst++ = data; }\<close>\<close>

fun uncompressed_run ::
  "uint8 list \<Rightarrow> nat \<Rightarrow> ('a::len word) unpack_state \<Rightarrow> fault + ('a word) unpack_state" where
  "uncompressed_run buf 0 st = Inr st"
| "uncompressed_run buf (Suc n) st =
     (case read_data buf (src st) of
        Inl e \<Rightarrow> Inl e
      | Inr (d, k) \<Rightarrow>
          uncompressed_run buf n
            (st\<lparr>src := src st + k, src_count := src_count st - int k, dst := dst st @ [d]\<rparr>))"

text \<open>
  One iteration of \<^verbatim>\<open>while (src_count > 0)\<close>: the flag/count byte
  \<^verbatim>\<open>int c = (int8)*src++; src_count--;\<close> and then the run it announces.
\<close>

definition unpack_run ::
  "uint8 list \<Rightarrow> ('a::len word) unpack_state \<Rightarrow> fault + ('a word) unpack_state" where
  "unpack_run buf st =
     bnd (peek buf (src st)) (\<lambda>b.
       let c = sint b;
           st1 = st\<lparr>src := src st + 1, src_count := src_count st - 1\<rparr>
       in if c < 0 then
            bnd (read_data buf (src st1)) (\<lambda>(d, k).
              Inr (st1\<lparr>src := src st1 + k, src_count := src_count st1 - int k,
                        dst := dst st1 @ replicate (nat (- c + 1)) d\<rparr>))
          else uncompressed_run buf (nat (c + 1)) st1)"

lemma read_data_advance:
  "read_data buf p = Inr (d, k) \<Longrightarrow> 1 \<le> k"
  by (auto simp: read_data_def bnd_def split: if_splits sum.splits)

lemma uncompressed_run_count:
  "uncompressed_run buf n st = Inr st' \<Longrightarrow> src_count st' \<le> src_count st"
proof (induction n arbitrary: st)
  case 0
  then show ?case by simp
next
  case (Suc n)
  then show ?case
    by (fastforce split: sum.splits prod.splits)
qed

lemma unpack_run_decreases:
  "unpack_run buf st = Inr st' \<Longrightarrow> src_count st' < src_count st"
  by (auto simp: unpack_run_def bnd_def Let_def split: sum.splits if_splits
      dest!: uncompressed_run_count)

function unpack_loop ::
  "uint8 list \<Rightarrow> ('a::len word) unpack_state \<Rightarrow> fault + ('a word) unpack_state" where
  "unpack_loop buf st =
     (if src_count st > 0 then
        (case unpack_run buf st of
           Inl e \<Rightarrow> Inl e
         | Inr st' \<Rightarrow> unpack_loop buf st')
      else Inr st)"
  by pat_completeness auto
termination
  by (relation "measure (\<lambda>(buf, st). nat (src_count st))")
     (auto dest: unpack_run_decreases)

declare unpack_loop.simps [simp del]

text \<open>
  The same loop with a budget of iterations: \<open>None\<close> when the budget is used up
  and the loop condition still holds.
\<close>

fun unpack_iter ::
  "nat \<Rightarrow> uint8 list \<Rightarrow> ('a::len word) unpack_state \<Rightarrow>
   (fault + ('a word) unpack_state) option" where
  "unpack_iter 0 buf st = (if src_count st > 0 then None else Some (Inr st))"
| "unpack_iter (Suc n) buf st =
     (if src_count st > 0 then
        (case unpack_run buf st of
           Inl e \<Rightarrow> Some (Inl e)
         | Inr st' \<Rightarrow> unpack_iter n buf st')
      else Some (Inr st))"

text \<open>
  \<^verbatim>\<open>unpack_bits(src, row_bytes, dst)\<close>: the source count (two bytes, big-endian, when
  \<^verbatim>\<open>row_bytes > 250\<close>; one byte otherwise), then the loop. It returns the new source
  pointer; the model returns with it the units stored through \<^verbatim>\<open>dst\<close>.
\<close>

definition read_count :: "uint8 list \<Rightarrow> nat \<Rightarrow> nat \<Rightarrow> fault + (int \<times> nat)" where
  "read_count buf p row_bytes =
     (if row_bytes > 250 then
        bnd (peek buf p) (\<lambda>b0.
        bnd (peek buf (p + 1)) (\<lambda>b1.
        Inr (push_bit 8 (uint b0) OR uint b1, p + 2)))
      else bnd (peek buf p) (\<lambda>b. Inr (uint b, p + 1)))"

definition unpack_bits ::
  "uint8 list \<Rightarrow> nat \<Rightarrow> nat \<Rightarrow> fault + (nat \<times> ('a::len word) list)" where
  "unpack_bits buf p row_bytes =
     bnd (read_count buf p row_bytes) (\<lambda>(n, p').
     bnd (unpack_loop buf \<lparr>src = p', src_count = n, dst = []\<rparr>) (\<lambda>st.
     Inr (src st, dst st)))"


subsection \<open>The depth-specific decompressors\<close>

text \<open>
  The host: what the code takes from its platform and its libraries. \<^verbatim>\<open>LITTLE_ENDIAN\<close>
  is the byte order macro; \<^verbatim>\<open>malloc\<close> returns \<^verbatim>\<open>NULL\<close> or a block whose content is
  whatever the heap held; \<^verbatim>\<open>SDL_RWFromMem\<close> and \<^verbatim>\<open>SDL_CreateRGBSurface\<close> are SDL's
  and may return \<^verbatim>\<open>NULL\<close>.
\<close>

record SDL_Color =
  col_r :: uint8
  col_g :: uint8
  col_b :: uint8

record SDL_Surface =
  surface_w :: nat
  surface_h :: nat
  BitsPerPixel :: nat
  masks :: "(uint32 \<times> uint32 \<times> uint32) option"
  pitch :: nat
  pixels :: "uint8 list"
  palette :: "SDL_Color list option"

record host =
  little_endian :: bool
  malloc_succeeds :: "nat \<Rightarrow> bool"
  malloc_content :: "nat \<Rightarrow> uint8"
  SDL_RWFromMem_succeeds :: bool
  SDL_CreateRGBSurface ::
    "nat \<Rightarrow> nat \<Rightarrow> nat \<Rightarrow> (uint32 \<times> uint32 \<times> uint32) option \<Rightarrow> SDL_Surface option"

text \<open>
  The destination is the pixel buffer of the surface, a list of bytes, and \<^verbatim>\<open>dst\<close> is an
  offset into it. \<open>store px dp bytes\<close> is the buffer after the stores of one
  \<^verbatim>\<open>unpack_bits\<close> call, which run from \<open>dp\<close> upwards with no bound checked.
\<close>

definition store :: "uint8 list \<Rightarrow> nat \<Rightarrow> uint8 list \<Rightarrow> fault + uint8 list" where
  "store px dp bytes =
     (if bytes = [] then Inr px
      else if dp + length bytes \<le> length px then
        Inr (take dp px @ bytes @ drop (dp + length bytes) px)
      else Inl WriteOutOfBounds)"

text \<open>A \<^verbatim>\<open>uint16\<close> stored through a \<^verbatim>\<open>uint16 *\<close>: two bytes in the order of the host.\<close>

definition bytes_of_uint16 :: "bool \<Rightarrow> uint16 \<Rightarrow> uint8 list" where
  "bytes_of_uint16 le u =
     (if le then [ucast u, ucast (drop_bit 8 u)] else [ucast (drop_bit 8 u), ucast u])"

text \<open>
  \<^verbatim>\<open>uncompress_rle8\<close> and \<^verbatim>\<open>uncompress_rle16\<close>: one \<^verbatim>\<open>unpack_bits\<close> per scan line,
  \<^verbatim>\<open>dst += dst_pitch\<close> after each. The last argument counts the scan lines left
  (\<^verbatim>\<open>height - y\<close>). The \<^verbatim>\<open>int\<close> parameters of the decompressors are natural numbers
  here: the one caller passes values of unsigned 16-bit fields. Their products do not
  overflow an \<^verbatim>\<open>int\<close>: \<^verbatim>\<open>row_bytes * height\<close> is below \<open>2 ^ 30\<close> (14 bits times
  16 bits), and \<^verbatim>\<open>dst_pitch * height\<close> is the size of the pixel buffer, taken to be below
  \<open>2 ^ 31\<close> bytes.
\<close>

fun uncompress_rle8 ::
  "uint8 list \<Rightarrow> nat \<Rightarrow> nat \<Rightarrow> uint8 list \<Rightarrow> nat \<Rightarrow> nat \<Rightarrow> nat \<Rightarrow> fault + uint8 list" where
  "uncompress_rle8 buf sp row_bytes px dp dst_pitch 0 = Inr px"
| "uncompress_rle8 buf sp row_bytes px dp dst_pitch (Suc height) =
     bnd (unpack_bits buf sp row_bytes) (\<lambda>(sp', units :: uint8 list).
     bnd (store px dp units) (\<lambda>px'.
     uncompress_rle8 buf sp' row_bytes px' (dp + dst_pitch) dst_pitch height))"

fun uncompress_rle16 ::
  "bool \<Rightarrow> uint8 list \<Rightarrow> nat \<Rightarrow> nat \<Rightarrow> uint8 list \<Rightarrow> nat \<Rightarrow> nat \<Rightarrow> nat \<Rightarrow>
   fault + uint8 list" where
  "uncompress_rle16 le buf sp row_bytes px dp dst_pitch 0 = Inr px"
| "uncompress_rle16 le buf sp row_bytes px dp dst_pitch (Suc height) =
     bnd (unpack_bits buf sp row_bytes) (\<lambda>(sp', units :: uint16 list).
     bnd (store px dp (concat (map (bytes_of_uint16 le) units))) (\<lambda>px'.
     uncompress_rle16 le buf sp' row_bytes px' (dp + dst_pitch) dst_pitch height))"

text \<open>
  \<^verbatim>\<open>copy_component_into_surface\<close>: \<^verbatim>\<open>while (count--) { *dst = *src++; dst += 4; }\<close>
  after \<^verbatim>\<open>dst += 2 - component\<close> (little-endian) or \<^verbatim>\<open>dst += component + 1\<close>.
\<close>

fun copy_loop :: "uint8 list \<Rightarrow> nat \<Rightarrow> uint8 list \<Rightarrow> nat \<Rightarrow> nat \<Rightarrow> fault + uint8 list" where
  "copy_loop tmp sp px dp 0 = Inr px"
| "copy_loop tmp sp px dp (Suc count) =
     (if sp < length tmp then
        (if dp < length px then copy_loop tmp (sp + 1) (px[dp := tmp ! sp]) (dp + 4) count
         else Inl WriteOutOfBounds)
      else Inl ReadOutOfBounds)"

definition copy_component_into_surface ::
  "bool \<Rightarrow> uint8 list \<Rightarrow> nat \<Rightarrow> uint8 list \<Rightarrow> nat \<Rightarrow> nat \<Rightarrow> nat \<Rightarrow> fault + uint8 list" where
  "copy_component_into_surface le tmp sp px dp count component =
     copy_loop tmp sp px (if le then dp + 2 - component else dp + component + 1) count"

text \<open>
  \<^verbatim>\<open>uncompress_rle32\<close>. The scan lines, given the temporary buffer \<open>tmp\<close>: each line is
  unpacked into \<open>tmp\<close> from its start and the three components are copied out.
\<close>

fun rle32_lines ::
  "bool \<Rightarrow> uint8 list \<Rightarrow> nat \<Rightarrow> nat \<Rightarrow> uint8 list \<Rightarrow> uint8 list \<Rightarrow> nat \<Rightarrow> nat \<Rightarrow> nat \<Rightarrow>
   fault + uint8 list" where
  "rle32_lines le buf sp row_bytes tmp px dp dst_pitch 0 = Inr px"
| "rle32_lines le buf sp row_bytes tmp px dp dst_pitch (Suc height) =
     bnd (unpack_bits buf sp row_bytes) (\<lambda>(sp', units :: uint8 list).
     bnd (store tmp 0 units) (\<lambda>tmp'.
     let width = row_bytes div 4 in
     bnd (copy_component_into_surface le tmp' 0 px dp width 0) (\<lambda>px1.
     bnd (copy_component_into_surface le tmp' width px1 dp width 1) (\<lambda>px2.
     bnd (copy_component_into_surface le tmp' (width * 2) px2 dp width 2) (\<lambda>px3.
     rle32_lines le buf sp' row_bytes tmp' px3 (dp + dst_pitch) dst_pitch height)))))"

text \<open>
  The result of \<open>uncompress_rle32\<close> is the pixel buffer and the number of temporary
  buffers that are still allocated when the function returns: \<^verbatim>\<open>malloc\<close> adds one,
  \<^verbatim>\<open>free\<close> takes one away. When \<^verbatim>\<open>malloc\<close> returns \<^verbatim>\<open>NULL\<close> the function returns at
  once (\<^verbatim>\<open>if (tmp == NULL) return;\<close>); it is a \<^verbatim>\<open>void\<close> function and reports nothing.
\<close>

definition uncompress_rle32 ::
  "host \<Rightarrow> uint8 list \<Rightarrow> nat \<Rightarrow> nat \<Rightarrow> uint8 list \<Rightarrow> nat \<Rightarrow> nat \<Rightarrow> nat \<Rightarrow>
   fault + (uint8 list \<times> nat)" where
  "uncompress_rle32 H buf sp row_bytes px dp dst_pitch height =
     (if \<not> malloc_succeeds H row_bytes then Inr (px, 0)
      else
        let tmp = map (malloc_content H) [0..<row_bytes]; allocated = Suc 0 in
        bnd (rle32_lines (little_endian H) buf sp row_bytes tmp px dp dst_pitch height) (\<lambda>px'.
        Inr (px', allocated - 1)))"

subsection \<open>uncompress_picture\<close>

text \<open>\<^verbatim>\<open>memcpy(dst, src, n)\<close> from the resource into the pixel buffer.\<close>

definition memcpy :: "uint8 list \<Rightarrow> nat \<Rightarrow> uint8 list \<Rightarrow> nat \<Rightarrow> nat \<Rightarrow> fault + uint8 list" where
  "memcpy buf sp px dp n =
     (if n = 0 then Inr px
      else if length buf < sp + n then Inl ReadOutOfBounds
      else store px dp (take n (drop sp buf)))"

text \<open>
  Modelled from the spec: \<^verbatim>\<open>byte_swap_memory\<close> is declared in \<^verbatim>\<open>byte_swapping.h\<close>, which is
  not among the sources. The spec: "byte-swap every 2-byte (depth 16) or 4-byte (depth 32)
  unit in place to convert from the format's stored byte order to host order". The
  stored order is big-endian, so the units are reversed on a little-endian host and left
  as they are on a big-endian one. \<open>unit_size\<close> is the width of a unit in bytes and
  \<open>fieldcount\<close> the number of units.
\<close>

fun swap_units :: "nat \<Rightarrow> nat \<Rightarrow> uint8 list \<Rightarrow> uint8 list" where
  "swap_units unit_size 0 bytes = bytes"
| "swap_units unit_size (Suc fieldcount) bytes =
     rev (take unit_size bytes) @ swap_units unit_size fieldcount (drop unit_size bytes)"

definition byte_swap_memory ::
  "host \<Rightarrow> uint8 list \<Rightarrow> nat \<Rightarrow> nat \<Rightarrow> nat \<Rightarrow> fault + uint8 list" where
  "byte_swap_memory H px dp unit_size fieldcount =
     (if \<not> little_endian H \<or> fieldcount = 0 then Inr px
      else if length px < dp + unit_size * fieldcount then Inl WriteOutOfBounds
      else Inr (take dp px @ swap_units unit_size fieldcount (drop dp px)))"

definition uncompress_picture ::
  "host \<Rightarrow> uint8 list \<Rightarrow> nat \<Rightarrow> nat \<Rightarrow> uint8 list \<Rightarrow> nat \<Rightarrow> nat \<Rightarrow> nat \<Rightarrow> nat \<Rightarrow> nat \<Rightarrow>
   fault + uint8 list" where
  "uncompress_picture H buf sp row_bytes px dp dst_pitch depth height pack_type =
     (if row_bytes < 8 then memcpy buf sp px dp (row_bytes * height)
      else if depth = 8 then uncompress_rle8 buf sp row_bytes px dp dst_pitch height
      else
        let pack_type =
              (if pack_type = 0 then
                 (if depth = 16 then 3 else if depth = 32 then 4 else pack_type)
               else pack_type)
        in if pack_type = 1 then
             bnd (memcpy buf sp px dp (row_bytes * height)) (\<lambda>px'.
               if depth = 16 then byte_swap_memory H px' dp 2 (dst_pitch * height div 2)
               else if depth = 32 then byte_swap_memory H px' dp 4 (dst_pitch * height div 4)
               else Inr px')
           else if pack_type = 3 then
             uncompress_rle16 (little_endian H) buf sp row_bytes px dp dst_pitch height
           else if pack_type = 4 then
             bnd (uncompress_rle32 H buf sp row_bytes px dp dst_pitch height) (\<lambda>(px', allocated).
               Inr px')
           else Inl (UnimplementedPacking pack_type))"

subsection \<open>picture_to_surface\<close>

text \<open>
  Modelled from the spec: the cursor over the resource is SDL's \<^verbatim>\<open>SDL_RWops\<close>
  (\<^verbatim>\<open>SDL_RWFromMem\<close>, \<^verbatim>\<open>SDL_ReadBE16\<close>, \<^verbatim>\<open>SDL_RWseek\<close>, \<^verbatim>\<open>SDL_RWtell\<close>), a library that is
  not among the sources. The spec (4.1, Byte Reader): "All multi-byte values are
  big-endian regardless of host endianness. [...] moving past the buffer end is a fatal
  format error (TruncatedInput). No implicit bounds-checked recovery: any out-of-range
  read aborts the whole decode." The cursor is its offset; a read or a seek returns the
  new offset. A seek to before the start of the buffer is refused in the same way (the
  interpreter never asks for one).
\<close>

definition SDL_ReadBE16 :: "uint8 list \<Rightarrow> nat \<Rightarrow> fault + (uint16 \<times> nat)" where
  "SDL_ReadBE16 buf p =
     (if p + 2 \<le> length buf then Inr (word_cat (buf ! p) (buf ! (p + 1)), p + 2)
      else Inl TruncatedInput)"

definition SDL_RWseek :: "uint8 list \<Rightarrow> nat \<Rightarrow> int \<Rightarrow> fault + nat" where
  "SDL_RWseek buf p n =
     (if 0 \<le> int p + n \<and> int p + n \<le> int (length buf) then Inr (nat (int p + n))
      else Inl TruncatedInput)"

text \<open>
  The variables of the opcode loop: the cursor \<^verbatim>\<open>p\<close>, the flag \<^verbatim>\<open>done\<close> and the
  surface \<^verbatim>\<open>s\<close> (\<open>None\<close> is \<^verbatim>\<open>NULL\<close>).
\<close>

record pict_state =
  cursor :: nat
  done_flag :: bool
  surf :: "SDL_Surface option"

text \<open>
  \<^verbatim>\<open>switch (pixel_size)\<close> sets \<^verbatim>\<open>Rmask\<close>, \<^verbatim>\<open>Gmask\<close> and \<^verbatim>\<open>Bmask\<close> in the cases 8, 16 and
  32 and has no \<^verbatim>\<open>default\<close>: for any other depth the three locals are passed to
  \<^verbatim>\<open>SDL_CreateRGBSurface\<close> uninitialised, which is \<open>None\<close> here.
\<close>

definition surface_masks :: "uint16 \<Rightarrow> (uint32 \<times> uint32 \<times> uint32) option" where
  "surface_masks pixel_size =
     (if pixel_size = 8 then Some (0xff, 0xff, 0xff)
      else if pixel_size = 16 then Some (0x7c00, 0x03e0, 0x001f)
      else if pixel_size = 32 then Some (0x00ff0000, 0x0000ff00, 0x000000ff)
      else None)"

text \<open>
  The colour table loop, \<^verbatim>\<open>for (int i=0; i<num_colors; i++)\<close>; the second argument counts
  the entries left. \<^verbatim>\<open>pal\<close> is \<^verbatim>\<open>s->format->palette\<close>, \<^verbatim>\<open>NULL\<close> for a surface without a
  palette; the first store through it follows the read of the red channel.
\<close>

fun read_colors ::
  "uint8 list \<Rightarrow> nat \<Rightarrow> nat \<Rightarrow> SDL_Color list option \<Rightarrow> fault + (nat \<times> SDL_Color list option)" where
  "read_colors buf 0 p pal = Inr (p, pal)"
| "read_colors buf (Suc n) p pal =
     bnd (SDL_ReadBE16 buf p) (\<lambda>(v, p).
     let color_value = unat (ucast (v AND 0xff) :: uint8) in
     bnd (SDL_ReadBE16 buf p) (\<lambda>(r, p).
     case pal of
       None \<Rightarrow> Inl NullDereference
     | Some colors \<Rightarrow>
         if length colors \<le> color_value then Inl WriteOutOfBounds
         else
           let colors = colors[color_value :=
                 (colors ! color_value)\<lparr>col_r := ucast (drop_bit 8 r)\<rparr>] in
           bnd (SDL_ReadBE16 buf p) (\<lambda>(g, p).
           let colors = colors[color_value :=
                 (colors ! color_value)\<lparr>col_g := ucast (drop_bit 8 g)\<rparr>] in
           bnd (SDL_ReadBE16 buf p) (\<lambda>(b, p).
           let colors = colors[color_value :=
                 (colors ! color_value)\<lparr>col_b := ucast (drop_bit 8 b)\<rparr>] in
           read_colors buf n p (Some colors)))))"

text \<open>\<^verbatim>\<open>// 2. ColorTable\<close>: only for opcode \<^verbatim>\<open>0x0098\<close>.\<close>

definition color_table ::
  "uint8 list \<Rightarrow> uint16 \<Rightarrow> nat \<Rightarrow> SDL_Surface \<Rightarrow> fault + (nat \<times> SDL_Surface)" where
  "color_table buf opcode p s =
     (if opcode = 0x0098 then
        bnd (SDL_RWseek buf p 6) (\<lambda>p.
        bnd (SDL_ReadBE16 buf p) (\<lambda>(n, p).
        let num_colors = unat n + 1 in
        bnd (read_colors buf num_colors p (palette s)) (\<lambda>(p, pal).
        Inr (p, s\<lparr>palette := pal\<rparr>))))
      else Inr (p, s))"

text \<open>
  The cases \<^verbatim>\<open>0x0098\<close> and \<^verbatim>\<open>0x009a\<close> of the opcode switch (packed CopyBits); the cursor
  of \<open>st\<close> stands after the opcode.
\<close>

definition packed_copy_bits ::
  "host \<Rightarrow> uint8 list \<Rightarrow> uint16 \<Rightarrow> pict_state \<Rightarrow> fault + pict_state" where
  "packed_copy_bits H buf opcode st =
     bnd (if opcode = 0x009a then SDL_RWseek buf (cursor st) 4 else Inr (cursor st)) (\<lambda>p.
     bnd (SDL_ReadBE16 buf p) (\<lambda>(rb, p).
     let row_bytes = rb AND 0x3fff in
     bnd (SDL_ReadBE16 buf p) (\<lambda>(top, p).
     bnd (SDL_ReadBE16 buf p) (\<lambda>(left, p).
     bnd (SDL_ReadBE16 buf p) (\<lambda>(bottom, p).
     let height = bottom - top in
     bnd (SDL_ReadBE16 buf p) (\<lambda>(right, p).
     let width = right - left in
     bnd (SDL_RWseek buf p 2) (\<lambda>p.
     bnd (SDL_ReadBE16 buf p) (\<lambda>(pack_type, p).
     bnd (SDL_RWseek buf p 14) (\<lambda>p.
     bnd (SDL_ReadBE16 buf p) (\<lambda>(pixel_size, p).
     bnd (SDL_RWseek buf p 16) (\<lambda>p.
     case SDL_CreateRGBSurface H (unat width) (unat height) (unat pixel_size)
            (surface_masks pixel_size) of
       None \<Rightarrow> Inr (st\<lparr>cursor := p, done_flag := True, surf := None\<rparr>)
     | Some s \<Rightarrow>
         bnd (color_table buf opcode p s) (\<lambda>(p, s).
         bnd (SDL_RWseek buf p 18) (\<lambda>p.
         bnd (uncompress_picture H buf p (unat row_bytes) (pixels s) 0 (pitch s)
                (unat pixel_size) (unat height) (unat pack_type)) (\<lambda>px.
         Inr (st\<lparr>cursor := p, done_flag := True,
                   surf := Some (s\<lparr>pixels := px\<rparr>)\<rparr>)))))))))))))))"

text \<open>
  One iteration of \<^verbatim>\<open>while (!done)\<close>: the opcode and its case of the switch. The
  \<^verbatim>\<open>default\<close> case prints the opcode and calls \<^verbatim>\<open>exit(1)\<close>.
\<close>

definition opcode_step :: "host \<Rightarrow> uint8 list \<Rightarrow> pict_state \<Rightarrow> fault + pict_state" where
  "opcode_step H buf st =
     bnd (SDL_ReadBE16 buf (cursor st)) (\<lambda>(opcode, p).
     let st = st\<lparr>cursor := p\<rparr> in
     if opcode = 0x0000 \<or> opcode = 0x0011 \<or> opcode = 0x001e \<or> opcode = 0x02ff then Inr st
     else if opcode = 0x00a0 then
       bnd (SDL_RWseek buf p 2) (\<lambda>p. Inr (st\<lparr>cursor := p\<rparr>))
     else if opcode = 0x00a1 then
       bnd (SDL_RWseek buf p 2) (\<lambda>p.
       bnd (SDL_ReadBE16 buf p) (\<lambda>(sz, p).
       bnd (SDL_RWseek buf p (uint sz)) (\<lambda>p. Inr (st\<lparr>cursor := p\<rparr>))))
     else if opcode = 0x0c00 then
       bnd (SDL_RWseek buf p 24) (\<lambda>p. Inr (st\<lparr>cursor := p\<rparr>))
     else if opcode = 0x00ff then Inr (st\<lparr>done_flag := True\<rparr>)
     else if opcode = 0x0001 then
       bnd (SDL_ReadBE16 buf p) (\<lambda>(sz, p).
       bnd (SDL_RWseek buf p (uint sz - 2)) (\<lambda>p. Inr (st\<lparr>cursor := p\<rparr>)))
     else if opcode = 0x0098 \<or> opcode = 0x009a then packed_copy_bits H buf opcode st
     else Inl (UnimplementedOpcode opcode))"

lemma bnd_Inr_iff:
  "(bnd m f = Inr y) = (\<exists>x. m = Inr x \<and> f x = Inr y)"
  by (cases m) (simp_all add: bnd_def)

lemma SDL_ReadBE16_advance:
  "SDL_ReadBE16 buf p = Inr (v, q) \<Longrightarrow> q = p + 2 \<and> q \<le> length buf"
  by (auto simp: SDL_ReadBE16_def split: if_splits)

lemma SDL_RWseek_advance:
  "SDL_RWseek buf p n = Inr q \<Longrightarrow> int q = int p + n \<and> q \<le> length buf"
  by (auto simp: SDL_RWseek_def split: if_splits)

lemma packed_copy_bits_done:
  "packed_copy_bits H buf opcode st = Inr st' \<Longrightarrow> done_flag st'"
  by (auto simp: packed_copy_bits_def bnd_Inr_iff Let_def split: option.splits)

lemma opcode_step_progress:
  assumes "opcode_step H buf st = Inr st'" and "\<not> done_flag st'"
  shows "cursor st < cursor st' \<and> cursor st' \<le> length buf"
  using assms
  apply (auto simp: opcode_step_def bnd_Inr_iff Let_def split: if_splits
      dest!: SDL_ReadBE16_advance SDL_RWseek_advance packed_copy_bits_done)
  subgoal for x sz q using uint_ge_0 [of sz] by linarith
  subgoal for sz q using uint_ge_0 [of sz] by linarith
  done

function picture_loop :: "host \<Rightarrow> uint8 list \<Rightarrow> pict_state \<Rightarrow> fault + pict_state" where
  "picture_loop H buf st =
     (if \<not> done_flag st then
        (case opcode_step H buf st of
           Inl e \<Rightarrow> Inl e
         | Inr st' \<Rightarrow> picture_loop H buf st')
      else Inr st)"
  by pat_completeness auto
termination
proof (relation "measure (\<lambda>(H, buf, st). if done_flag st then 0 else Suc (length buf - cursor st))")
  show "wf (measure (\<lambda>(H, buf, st). if done_flag st then 0 else Suc (length buf - cursor st)))"
    by simp
next
  fix H :: host and buf :: "uint8 list" and st st' :: pict_state
  assume "\<not> done_flag st" and step: "opcode_step H buf st = Inr st'"
  then show "((H, buf, st'), (H, buf, st)) \<in>
      measure (\<lambda>(H, buf, st). if done_flag st then 0 else Suc (length buf - cursor st))"
    using opcode_step_progress [OF step] by auto
qed

declare picture_loop.simps [simp del]

text \<open>
  \<^verbatim>\<open>picture_to_surface(rsrc)\<close>: the resource is \<open>None\<close> when it is not loaded; the result
  is the surface \<^verbatim>\<open>s\<close>, \<open>None\<close> for \<^verbatim>\<open>NULL\<close>.
\<close>

definition picture_to_surface :: "host \<Rightarrow> uint8 list option \<Rightarrow> fault + SDL_Surface option" where
  "picture_to_surface H rsrc =
     (case rsrc of
        None \<Rightarrow> Inr None
      | Some buf \<Rightarrow>
          if \<not> SDL_RWFromMem_succeeds H then Inr None
          else
            bnd (SDL_RWseek buf 0 10) (\<lambda>p.
            bnd (picture_loop H buf \<lparr>cursor = p, done_flag = False, surf = None\<rparr>) (\<lambda>st.
            Inr (surf st))))"

subsection \<open>An example host\<close>

text \<open>
  A host to evaluate the model on concrete resources: little-endian, every allocation
  succeeds, fresh memory is zero, and a surface is laid out as SDL 1.2 lays out a software
  surface (rows padded to a multiple of four bytes, pixels zeroed, a palette of black
  entries for depths up to 8 and none above).
\<close>

definition software_surface ::
  "nat \<Rightarrow> nat \<Rightarrow> nat \<Rightarrow> (uint32 \<times> uint32 \<times> uint32) option \<Rightarrow> SDL_Surface option" where
  "software_surface w h d m =
     (let row = (if d = 1 then (w + 7) div 8 else if d = 4 then (w + 1) div 2
                 else w * ((d + 7) div 8));
          pitch = ((row + 3) div 4) * 4
      in Some \<lparr>surface_w = w, surface_h = h, BitsPerPixel = d, masks = m, pitch = pitch,
               pixels = replicate (h * pitch) 0,
               palette = (if d \<le> 8
                          then Some (replicate (2 ^ d) \<lparr>col_r = 0, col_g = 0, col_b = 0\<rparr>)
                          else None)\<rparr>)"

definition example_host :: host where
  "example_host =
     \<lparr>little_endian = True, malloc_succeeds = (\<lambda>n. True), malloc_content = (\<lambda>i. 0),
      SDL_RWFromMem_succeeds = True, SDL_CreateRGBSurface = software_surface\<rparr>"

text \<open>
  An example resource: the 10-byte header, the opcodes \<open>0x0011\<close> and \<open>0x02ff\<close>, the image
  opcode \<open>0x0098\<close> for a 2 by 2 image of depth 8 with \<open>rowBytes = 2\<close> (flag bit set) and
  a colour table of two entries (indices 5 and 3), four bytes of pixel data and the
  end-of-picture opcode \<open>0x00ff\<close>; and the surface it decodes to on the example host.
\<close>

definition pict_2x2 :: "uint8 list" where
  "pict_2x2 =
     [0, 0, 0, 0, 0, 0, 0, 0, 0, 0,
      0x00, 0x11, 0x02, 0xFF,
      0x00, 0x98,
      0x80, 0x02, 0, 0, 0, 0, 0, 2, 0, 2,
      0, 0, 0, 0,
      0, 0, 0, 0, 0, 0, 0, 0, 0, 0, 0, 0, 0, 0,
      0, 8,
      0, 0, 0, 0, 0, 0, 0, 0, 0, 0, 0, 0, 0, 0, 0, 0,
      0, 0, 0, 0, 0, 0, 0, 1,
      0, 5, 0x12, 0x34, 0x56, 0x78, 0x9A, 0xBC,
      0, 3, 0xFF, 0xFF, 0x80, 0x00, 0x00, 0x01,
      0, 0, 0, 0, 0, 0, 0, 0, 0, 0, 0, 0, 0, 0, 0, 0, 0, 0,
      5, 3, 3, 5,
      0x00, 0xFF]"

definition decoded_2x2 :: SDL_Surface where
  "decoded_2x2 =
     \<lparr>surface_w = 2, surface_h = 2, BitsPerPixel = 8, masks = Some (0xff, 0xff, 0xff),
      pitch = 4, pixels = [5, 3, 3, 5, 0, 0, 0, 0],
      palette = Some ((replicate 256 \<lparr>col_r = 0, col_g = 0, col_b = 0\<rparr>)
        [5 := \<lparr>col_r = 0x12, col_g = 0x56, col_b = 0x9A\<rparr>,
         3 := \<lparr>col_r = 0xFF, col_g = 0x80, col_b = 0x00\<rparr>])\<rparr>"


definition pict_depth24 :: "uint8 list" where
  "pict_depth24 =
     [0, 0, 0, 0, 0, 0, 0, 0, 0, 0,
      0x00, 0x9A,
      0, 0, 0, 0xFF,
      0x80, 0x06, 0, 0, 0, 0, 0, 2, 0, 2,
      0, 0, 0, 0,
      0, 0, 0, 0, 0, 0, 0, 0, 0, 0, 0, 0, 0, 0,
      0, 24,
      0, 0, 0, 0, 0, 0, 0, 0, 0, 0, 0, 0, 0, 0, 0, 0,
      0, 0, 0, 0, 0, 0, 0, 0, 0, 0, 0, 0, 0, 0, 0, 0, 0, 0,
      1, 2, 3, 4, 5, 6, 7, 8, 9, 10, 11, 12,
      0x00, 0xFF]"

definition pict_depth32 :: "uint8 list" where
  "pict_depth32 =
     [0, 0, 0, 0, 0, 0, 0, 0, 0, 0,
      0x00, 0x9A,
      0, 0, 0, 0xFF,
      0x80, 0x08, 0, 0, 0, 0, 0, 1, 0, 2,
      0, 0, 0, 4,
      0, 0, 0, 0, 0, 0, 0, 0, 0, 0, 0, 0, 0, 0,
      0, 32,
      0, 0, 0, 0, 0, 0, 0, 0, 0, 0, 0, 0, 0, 0, 0, 0,
      0, 0, 0, 0, 0, 0, 0, 0, 0, 0, 0, 0, 0, 0, 0, 0, 0, 0,
      6, 0xFF, 0x11, 0xFF, 0x22, 0xFF, 0x33,
      0x00, 0xFF]"

section \<open>Properties of the scan-line unpacker\<close>

text \<open>
  \<open>units16 buf p n\<close>: the \<open>n\<close> 16-bit units that start at offset \<open>p\<close>, each two
  bytes with the high byte first.
\<close>

definition units16 :: "uint8 list \<Rightarrow> nat \<Rightarrow> nat \<Rightarrow> uint16 list" where
  "units16 buf p n = map (\<lambda>i. word_cat (buf ! (p + 2 * i)) (buf ! (p + 2 * i + 1))) [0..<n]"

lemma cat16:
  "push_bit 8 (ucast (b0::uint8)) OR ucast (b1::uint8) = (word_cat b0 b1 :: uint16)"
  by (rule bit_word_eqI) (auto simp: bit_simps dest: bit_imp_le_length)

lemma read_data_uint8:
  "p < length buf \<Longrightarrow> read_data buf p = Inr (buf ! p :: uint8, 1)"
  by (simp add: read_data_def sizeof_def bnd_def peek_def)

lemma read_data_uint16:
  "p + 1 < length buf \<Longrightarrow>
   read_data buf p = Inr (word_cat (buf ! p) (buf ! (p + 1)) :: uint16, 2)"
  by (simp add: read_data_def sizeof_def bnd_def peek_def cat16)

lemma uncompressed_run_uint8:
  "src st + n \<le> length buf \<Longrightarrow>
   uncompressed_run buf n (st :: uint8 unpack_state) =
     Inr (st\<lparr>src := src st + n, src_count := src_count st - int n,
             dst := dst st @ take n (drop (src st) buf)\<rparr>)"
proof (induction n arbitrary: st)
  case 0
  then show ?case by simp
next
  case (Suc n)
  have "take (Suc n) (drop (src st) buf) = buf ! src st # take n (drop (Suc (src st)) buf)"
    using Suc.prems by (simp add: take_Suc Cons_nth_drop_Suc hd_drop_conv_nth drop_Suc tl_drop)
  with Suc show ?case
    by (simp add: read_data_uint8)
qed

lemma units16_Suc:
  "units16 buf p (Suc n) = word_cat (buf ! p) (buf ! (p + 1)) # units16 buf (p + 2) n"
  unfolding units16_def
  by (simp add: upt_conv_Cons map_Suc_upt [symmetric] del: upt_Suc)

lemma uncompressed_run_uint16:
  "src st + 2 * n \<le> length buf \<Longrightarrow>
   uncompressed_run buf n (st :: uint16 unpack_state) =
     Inr (st\<lparr>src := src st + 2 * n, src_count := src_count st - 2 * int n,
             dst := dst st @ units16 buf (src st) n\<rparr>)"
proof (induction n arbitrary: st)
  case 0
  then show ?case by (simp add: units16_def)
next
  case (Suc n)
  then show ?case
    by (simp add: read_data_uint16 units16_Suc)
qed

lemma unpack_run_uint8_repeat:
  fixes st :: "uint8 unpack_state"
  assumes "src st + 1 < length buf" and "sint (buf ! src st) < 0"
  shows "unpack_run buf st =
     Inr \<lparr>src = src st + 2, src_count = src_count st - 2,
          dst = dst st @ replicate (nat (- sint (buf ! src st) + 1)) (buf ! (src st + 1))\<rparr>"
  using assms by (simp add: unpack_run_def bnd_def peek_def Let_def read_data_uint8)

lemma unpack_run_uint16_repeat:
  fixes st :: "uint16 unpack_state"
  assumes "src st + 2 < length buf" and "sint (buf ! src st) < 0"
  shows "unpack_run buf st =
     Inr \<lparr>src = src st + 3, src_count = src_count st - 3,
          dst = dst st @ replicate (nat (- sint (buf ! src st) + 1))
                  (word_cat (buf ! (src st + 1)) (buf ! (src st + 2)))\<rparr>"
  using assms
  by (simp add: unpack_run_def bnd_def peek_def Let_def read_data_uint16 numeral_3_eq_3)

lemma unpack_run_uint8_literal:
  fixes st :: "uint8 unpack_state"
  assumes "0 \<le> sint (buf ! src st)"
    and "src st + 1 + nat (sint (buf ! src st) + 1) \<le> length buf"
  shows "unpack_run buf st =
     Inr \<lparr>src = src st + 1 + nat (sint (buf ! src st) + 1),
          src_count = src_count st - 1 - (sint (buf ! src st) + 1),
          dst = dst st @ take (nat (sint (buf ! src st) + 1)) (drop (src st + 1) buf)\<rparr>"
  using assms by (simp add: unpack_run_def bnd_def peek_def Let_def uncompressed_run_uint8)

lemma unpack_run_uint16_literal:
  fixes st :: "uint16 unpack_state"
  assumes "0 \<le> sint (buf ! src st)"
    and "src st + 1 + 2 * nat (sint (buf ! src st) + 1) \<le> length buf"
  shows "unpack_run buf st =
     Inr \<lparr>src = src st + 1 + 2 * nat (sint (buf ! src st) + 1),
          src_count = src_count st - 1 - 2 * (sint (buf ! src st) + 1),
          dst = dst st @ units16 buf (src st + 1) (nat (sint (buf ! src st) + 1))\<rparr>"
  using assms by (simp add: unpack_run_def bnd_def peek_def Let_def uncompressed_run_uint16)

text \<open>
  Claim C5. A repeat run: when the control byte \<open>c\<close> at \<open>src\<close> is negative and the one
  unit after it is inside the buffer, the iteration stores exactly \<open>-c + 1\<close> copies of
  that unit (one byte for unit width 1; two bytes, high byte first, for unit width 2),
  advances the source pointer by \<open>1 + unitWidth\<close> bytes and lowers the remaining count
  by the same \<open>1 + unitWidth\<close>.
\<close>

theorem unpack_run_repeat:
  fixes st8 :: "uint8 unpack_state" and st16 :: "uint16 unpack_state"
  shows
    "(src st8 + 1 < length buf \<and> sint (buf ! src st8) < 0 \<longrightarrow>
        unpack_run buf st8 =
          Inr \<lparr>src = src st8 + 2, src_count = src_count st8 - 2,
               dst = dst st8 @
                 replicate (nat (- sint (buf ! src st8) + 1)) (buf ! (src st8 + 1))\<rparr>)
     \<and> (src st16 + 2 < length buf \<and> sint (buf ! src st16) < 0 \<longrightarrow>
        unpack_run buf st16 =
          Inr \<lparr>src = src st16 + 3, src_count = src_count st16 - 3,
               dst = dst st16 @
                 replicate (nat (- sint (buf ! src st16) + 1))
                   (word_cat (buf ! (src st16 + 1)) (buf ! (src st16 + 2)))\<rparr>)"
  using unpack_run_uint8_repeat [of st8 buf] unpack_run_uint16_repeat [of st16 buf]
  by blast

theorem unpack_run_repeat_witness:
  "unpack_run [0xFE, 0x12, 0x34] \<lparr>src = 0, src_count = 9, dst = [] :: uint8 list\<rparr> =
     Inr \<lparr>src = 2, src_count = 7, dst = [0x12, 0x12, 0x12]\<rparr>
   \<and> unpack_run [0xFE, 0x12, 0x34] \<lparr>src = 0, src_count = 9, dst = [] :: uint16 list\<rparr> =
     Inr \<lparr>src = 3, src_count = 6, dst = [0x1234, 0x1234, 0x1234]\<rparr>"
  using unpack_run_repeat [of "\<lparr>src = 0, src_count = 9, dst = []\<rparr>" "[0xFE, 0x12, 0x34]"
      "\<lparr>src = 0, src_count = 9, dst = []\<rparr>"]
  by (simp add: numeral_3_eq_3 word_cat_eq)

text \<open>
  Claim C6. A literal run: when the control byte \<open>c\<close> at \<open>src\<close> is not negative and
  the \<open>c + 1\<close> units after it are inside the buffer, the iteration stores exactly those
  \<open>c + 1\<close> units in input order (for unit width 2 each unit is two bytes, high byte
  first), advances the source pointer by \<open>1 + (c + 1) * unitWidth\<close> bytes and lowers the
  remaining count by as much: one for the control byte and \<open>unitWidth\<close> for each unit.
\<close>

theorem unpack_run_literal:
  fixes st8 :: "uint8 unpack_state" and st16 :: "uint16 unpack_state"
  shows
    "(0 \<le> sint (buf ! src st8) \<and> src st8 + 1 + nat (sint (buf ! src st8) + 1) \<le> length buf \<longrightarrow>
        unpack_run buf st8 =
          Inr \<lparr>src = src st8 + 1 + nat (sint (buf ! src st8) + 1),
               src_count = src_count st8 - 1 - (sint (buf ! src st8) + 1),
               dst = dst st8 @ take (nat (sint (buf ! src st8) + 1)) (drop (src st8 + 1) buf)\<rparr>)
     \<and> (0 \<le> sint (buf ! src st16) \<and>
          src st16 + 1 + 2 * nat (sint (buf ! src st16) + 1) \<le> length buf \<longrightarrow>
        unpack_run buf st16 =
          Inr \<lparr>src = src st16 + 1 + 2 * nat (sint (buf ! src st16) + 1),
               src_count = src_count st16 - 1 - 2 * (sint (buf ! src st16) + 1),
               dst = dst st16 @
                 units16 buf (src st16 + 1) (nat (sint (buf ! src st16) + 1))\<rparr>)"
  using unpack_run_uint8_literal [of buf st8] unpack_run_uint16_literal [of buf st16]
  by blast

theorem unpack_run_literal_witness:
  "unpack_run [0x01, 0xAA, 0xBB, 0xCC, 0xDD] \<lparr>src = 0, src_count = 9, dst = [] :: uint8 list\<rparr> =
     Inr \<lparr>src = 3, src_count = 6, dst = [0xAA, 0xBB]\<rparr>
   \<and> unpack_run [0x01, 0xAA, 0xBB, 0xCC, 0xDD] \<lparr>src = 0, src_count = 9, dst = [] :: uint16 list\<rparr> =
     Inr \<lparr>src = 5, src_count = 4, dst = [0xAABB, 0xCCDD]\<rparr>"
proof -
  note t = unpack_run_literal [of "[0x01, 0xAA, 0xBB, 0xCC, 0xDD]"
      "\<lparr>src = 0, src_count = 9, dst = []\<rparr>" "\<lparr>src = 0, src_count = 9, dst = []\<rparr>"]
  have a: "unpack_run [0x01, 0xAA, 0xBB, 0xCC, 0xDD] \<lparr>src = 0, src_count = 9, dst = [] :: uint8 list\<rparr> =
     Inr \<lparr>src = 3, src_count = 6, dst = [0xAA, 0xBB]\<rparr>"
    using t [THEN conjunct1] by (simp add: numeral_2_eq_2)
  have b: "unpack_run [0x01, 0xAA, 0xBB, 0xCC, 0xDD] \<lparr>src = 0, src_count = 9, dst = [] :: uint16 list\<rparr> =
     Inr \<lparr>src = 5, src_count = 4, dst = [0xAABB, 0xCCDD]\<rparr>"
    using t [THEN conjunct2] by (simp add: units16_def word_cat_eq upt_conv_Cons)
  show ?thesis by (intro conjI) (fact a, fact b)
qed

lemma unpack_iter_loop:
  "nat (src_count st) \<le> n \<Longrightarrow> unpack_iter n buf st = Some (unpack_loop buf st)"
proof (induction n arbitrary: st)
  case 0
  then show ?case by (simp add: unpack_loop.simps)
next
  case (Suc n)
  show ?case
  proof (cases "src_count st > 0")
    case False
    then show ?thesis by (simp add: unpack_loop.simps)
  next
    case True
    show ?thesis
    proof (cases "unpack_run buf st")
      case (Inl e)
      with True show ?thesis by (simp add: unpack_loop.simps [of buf st])
    next
      case (Inr st')
      then have "src_count st' < src_count st" by (rule unpack_run_decreases)
      with Suc.prems have "nat (src_count st') \<le> n" by linarith
      then have "unpack_iter n buf st' = Some (unpack_loop buf st')" by (rule Suc.IH)
      with True Inr show ?thesis by (simp add: unpack_loop.simps [of buf st])
    qed
  qed
qed

lemma unpack_loop_final:
  "unpack_loop buf st = Inr st' \<Longrightarrow> src_count st' \<le> 0"
proof (induction buf st rule: unpack_loop.induct)
  case (1 buf st)
  then show ?case
    by (auto simp: unpack_loop.simps [of buf st] split: if_splits sum.splits)
qed

text \<open>
  Claim C10. The loop of the scan-line unpacker terminates on every input. Every
  iteration that returns lowers the remaining count by at least one (the control byte);
  so a budget of as many iterations as the remaining count is always enough for the loop
  to finish, with the result of the loop. The loop exits at once when the remaining
  count is zero or negative, and when it returns the remaining count is zero or negative:
  a run whose data overshoots the declared count leaves a negative remainder and ends
  the loop.
\<close>

theorem unpack_loop_terminates:
  "unpack_iter (nat (src_count st)) buf st = Some (unpack_loop buf st)
   \<and> (unpack_run buf st = Inr st' \<longrightarrow> src_count st' \<le> src_count st - 1)
   \<and> (src_count st \<le> 0 \<longrightarrow> unpack_loop buf st = Inr st)
   \<and> (unpack_loop buf st = Inr st'' \<longrightarrow> src_count st'' \<le> 0)"
proof -
  have "unpack_iter (nat (src_count st)) buf st = Some (unpack_loop buf st)"
    by (rule unpack_iter_loop) simp
  moreover have "unpack_run buf st = Inr st' \<longrightarrow> src_count st' \<le> src_count st - 1"
    using unpack_run_decreases [of buf st st'] by auto
  moreover have "src_count st \<le> 0 \<longrightarrow> unpack_loop buf st = Inr st"
    by (simp add: unpack_loop.simps [of buf st])
  moreover have "unpack_loop buf st = Inr st'' \<longrightarrow> src_count st'' \<le> 0"
    using unpack_loop_final [of buf st st''] by blast
  ultimately show ?thesis by blast
qed

theorem unpack_loop_terminates_witness:
  "unpack_run [0x01, 0xAA, 0xBB] \<lparr>src = 0, src_count = 1, dst = [] :: uint8 list\<rparr>
     = Inr \<lparr>src = 3, src_count = -2, dst = [0xAA, 0xBB]\<rparr>
   \<and> unpack_iter 1 [0x01, 0xAA, 0xBB] \<lparr>src = 0, src_count = 1, dst = [] :: uint8 list\<rparr>
     = Some (Inr \<lparr>src = 3, src_count = -2, dst = [0xAA, 0xBB]\<rparr>)
   \<and> unpack_loop [0x01, 0xAA, 0xBB] \<lparr>src = 0, src_count = 1, dst = [] :: uint8 list\<rparr>
     = Inr \<lparr>src = 3, src_count = -2, dst = [0xAA, 0xBB]\<rparr>
   \<and> unpack_loop [0x01, 0xAA, 0xBB] \<lparr>src = 3, src_count = -2, dst = [0xAA, 0xBB :: uint8]\<rparr>
     = Inr \<lparr>src = 3, src_count = -2, dst = [0xAA, 0xBB]\<rparr>"
proof -
  let ?buf = "[0x01, 0xAA, 0xBB] :: uint8 list"
  let ?st0 = "\<lparr>src = 0, src_count = 1, dst = [] :: uint8 list\<rparr>"
  let ?st1 = "\<lparr>src = 3, src_count = -2, dst = [0xAA, 0xBB :: uint8]\<rparr>"
  note t0 = unpack_loop_terminates [of ?st0 ?buf ?st1 ?st1]
  note t1 = unpack_loop_terminates [of ?st1 ?buf ?st1 ?st1]
  have run: "unpack_run ?buf ?st0 = Inr ?st1"
    using unpack_run_uint8_literal [of ?buf ?st0] by (simp add: numeral_2_eq_2)
  have exit: "unpack_loop ?buf ?st1 = Inr ?st1"
    using t1 [THEN conjunct2, THEN conjunct2, THEN conjunct1] by simp
  have iter: "unpack_iter 1 ?buf ?st0 = Some (Inr ?st1)"
    using run by simp
  have e: "unpack_iter 1 ?buf ?st0 = Some (unpack_loop ?buf ?st0)"
    using t0 [THEN conjunct1] by simp
  have loop: "unpack_loop ?buf ?st0 = Inr ?st1"
    using iter unfolding e by (simp only: option.inject)
  show ?thesis
    by (intro conjI) (fact run, fact iter, fact loop, fact exit)
qed

section \<open>Properties of the dispatch\<close>




section \<open>Properties of the opcode interpreter\<close>

text \<open>
  The fields of the inline colour table as the resource holds them: \<open>be16 buf p\<close> is
  the big-endian 16-bit value at offset \<open>p\<close>; an entry is eight bytes, a palette index
  and three 16-bit channels, and \<open>table_entry\<close> is the index (its low byte, the
  \<^verbatim>\<open>uint8\<close> of the source) with the high bytes of the channels.
\<close>

definition be16 :: "uint8 list \<Rightarrow> nat \<Rightarrow> uint16" where
  "be16 buf p = word_cat (buf ! p) (buf ! (p + 1))"

definition high_byte :: "uint16 \<Rightarrow> uint8" where
  "high_byte v = ucast (drop_bit 8 v)"

definition table_entry :: "uint8 list \<Rightarrow> nat \<Rightarrow> nat \<times> SDL_Color" where
  "table_entry buf p =
     (unat (be16 buf p) mod 256,
      \<lparr>col_r = high_byte (be16 buf (p + 2)), col_g = high_byte (be16 buf (p + 4)),
       col_b = high_byte (be16 buf (p + 6))\<rparr>)"

definition table_entries :: "uint8 list \<Rightarrow> nat \<Rightarrow> nat \<Rightarrow> (nat \<times> SDL_Color) list" where
  "table_entries buf p n = map (\<lambda>i. table_entry buf (p + 8 * i)) [0..<n]"

definition set_color :: "SDL_Color list \<Rightarrow> nat \<times> SDL_Color \<Rightarrow> SDL_Color list" where
  "set_color colors e = colors[fst e := snd e]"

lemma mask8: "(0xff :: uint16) = mask 8"
  by (simp add: mask_eq_exp_minus_1)

lemma lowbyte: "unat (ucast ((v::uint16) AND 0xff) :: uint8) = unat v mod 256"
  unfolding mask8
  by (simp add: unsigned_ucast_eq unsigned_take_bit_eq take_bit_eq_mod unat_mod
      flip: take_bit_eq_mask)

lemma SDL_ReadBE16_be16:
  "p + 2 \<le> length buf \<Longrightarrow> SDL_ReadBE16 buf p = Inr (be16 buf p, p + 2)"
  by (simp add: SDL_ReadBE16_def be16_def)

lemma table_entries_Suc:
  "table_entries buf p (Suc n) = table_entry buf p # table_entries buf (p + 8) n"
  unfolding table_entries_def
  by (simp add: upt_conv_Cons map_Suc_upt [symmetric] add.assoc del: upt_Suc)

lemma set_color_pair [simp]: "set_color colors (i, c) = colors[i := c]"
  by (simp add: set_color_def)

lemma length_set_color [simp]: "length (set_color colors e) = length colors"
  by (simp add: set_color_def)

lemma SDL_Color_updates:
  "(c :: SDL_Color)\<lparr>col_r := x, col_g := y, col_b := z\<rparr> = \<lparr>col_r = x, col_g = y, col_b = z\<rparr>"
  by (cases c) simp

lemma length_foldl_set_color [simp]:
  "length (foldl set_color colors es) = length colors"
  by (induction es arbitrary: colors) simp_all

lemma read_colors_entries:
  "256 \<le> length colors \<Longrightarrow> p + 8 * n \<le> length buf \<Longrightarrow>
   read_colors buf n p (Some colors) =
     Inr (p + 8 * n, Some (foldl set_color colors (table_entries buf p n)))"
proof (induction n arbitrary: p colors)
  case 0
  then show ?case by (simp add: table_entries_def)
next
  case (Suc n)
  let ?i = "unat (be16 buf p) mod 256"
  have i: "?i < length colors" using Suc.prems(1) by (simp add: less_le_trans [of _ 256])
  have step: "read_colors buf (Suc n) p (Some colors) =
      read_colors buf n (p + 8) (Some (set_color colors (table_entry buf p)))"
    using Suc.prems i
    by (simp add: SDL_ReadBE16_be16 bnd_def lowbyte Let_def table_entry_def
        high_byte_def SDL_Color_updates add.commute del: add_2_eq_Suc' add_2_eq_Suc)
  have "read_colors buf n (p + 8) (Some (set_color colors (table_entry buf p))) =
      Inr (p + 8 + 8 * n,
        Some (foldl set_color (set_color colors (table_entry buf p)) (table_entries buf (p + 8) n)))"
    by (rule Suc.IH) (use Suc.prems in simp_all)
  with step show ?case by (simp add: table_entries_Suc)
qed

lemma foldl_set_color_nth:
  "k < length colors \<Longrightarrow>
   foldl set_color colors es ! k =
     (case map_of (rev es) k of None \<Rightarrow> colors ! k | Some c \<Rightarrow> c)"
proof (induction es rule: rev_induct)
  case Nil
  then show ?case by simp
next
  case (snoc e es)
  then show ?case
    by (cases e) (simp add: nth_list_update)
qed

text \<open>
  Claim C7. For opcode \<open>0x0098\<close>, the variant without a base address, on a surface with
  a palette of 256 entries and a resource that holds the whole table: after six skipped
  bytes the interpreter reads the count \<open>N\<close> and then \<open>N + 1\<close> entries, and stores for each
  entry, in the order of the resource, the high bytes of its three channels at the entry's
  palette index (the low byte of the index field, which is the declared index whenever
  that is below 256). So in the resulting palette an index holds the colour of the last
  entry that names it, and an index that no entry names keeps its colour. For opcode
  \<open>0x009a\<close>, the variant with a base address, nothing is read and the surface is unchanged.
\<close>

theorem color_table_entries:
  assumes "palette s = Some colors" and "256 \<le> length colors"
    and "p + 8 + 8 * (unat (be16 buf (p + 6)) + 1) \<le> length buf"
    and "es = table_entries buf (p + 8) (unat (be16 buf (p + 6)) + 1)"
  shows "color_table buf 0x0098 p s =
           Inr (p + 8 + 8 * (unat (be16 buf (p + 6)) + 1),
                s\<lparr>palette := Some (foldl set_color colors es)\<rparr>)
         \<and> (\<forall>k < length colors.
               foldl set_color colors es ! k =
                 (case map_of (rev es) k of None \<Rightarrow> colors ! k | Some c \<Rightarrow> c))
         \<and> color_table buf 0x009a p s = Inr (p, s)"
proof -
  let ?n = "unat (be16 buf (p + 6)) + 1"
  have seek: "SDL_RWseek buf p 6 = Inr (p + 6)"
    using assms(3) by (simp add: SDL_RWseek_def)
  have rd: "SDL_ReadBE16 buf (p + 6) = Inr (be16 buf (p + 6), p + 8)"
    using assms(3) SDL_ReadBE16_be16 [of "p + 6" buf] by simp
  have cols: "read_colors buf ?n (p + 8) (Some colors) =
      Inr (p + 8 + 8 * ?n, Some (foldl set_color colors es))"
    unfolding assms(4) by (rule read_colors_entries) (use assms in simp_all)
  have "color_table buf 0x0098 p s =
      Inr (p + 8 + 8 * ?n, s\<lparr>palette := Some (foldl set_color colors es)\<rparr>)"
    unfolding color_table_def using seek rd cols assms(1) by (simp add: bnd_def Let_def)
  moreover have "color_table buf 0x009a p s = Inr (p, s)"
    by (simp add: color_table_def)
  ultimately show ?thesis
    by (simp add: foldl_set_color_nth)
qed


theorem color_table_entries_witness:
  "color_table
     [0, 0, 0, 0, 0, 0, 0, 2,
      0, 5, 0x12, 0x34, 0x56, 0x78, 0x9A, 0xBC,
      0, 3, 0xFF, 0xFF, 0x80, 0x00, 0x00, 0x01,
      0, 5, 0x01, 0x00, 0x02, 0x00, 0x03, 0x00] 0x0098 0
     \<lparr>surface_w = 2, surface_h = 2, BitsPerPixel = 8, masks = Some (0xff, 0xff, 0xff),
      pitch = 4, pixels = [0, 0, 0, 0, 0, 0, 0, 0],
      palette = Some (replicate 256 \<lparr>col_r = 0, col_g = 0, col_b = 0\<rparr>)\<rparr>
   = Inr (32,
       \<lparr>surface_w = 2, surface_h = 2, BitsPerPixel = 8, masks = Some (0xff, 0xff, 0xff),
        pitch = 4, pixels = [0, 0, 0, 0, 0, 0, 0, 0],
        palette = Some (foldl set_color (replicate 256 \<lparr>col_r = 0, col_g = 0, col_b = 0\<rparr>)
          [(5, \<lparr>col_r = 0x12, col_g = 0x56, col_b = 0x9A\<rparr>),
           (3, \<lparr>col_r = 0xFF, col_g = 0x80, col_b = 0x00\<rparr>),
           (5, \<lparr>col_r = 0x01, col_g = 0x02, col_b = 0x03\<rparr>)])\<rparr>)
   \<and> foldl set_color (replicate 256 \<lparr>col_r = 0, col_g = 0, col_b = 0\<rparr>)
          [(5, \<lparr>col_r = 0x12, col_g = 0x56, col_b = 0x9A\<rparr>),
           (3, \<lparr>col_r = 0xFF, col_g = 0x80, col_b = 0x00\<rparr>),
           (5, \<lparr>col_r = 0x01, col_g = 0x02, col_b = 0x03\<rparr>)] ! 5
       = \<lparr>col_r = 0x01, col_g = 0x02, col_b = 0x03\<rparr>
   \<and> foldl set_color (replicate 256 \<lparr>col_r = 0, col_g = 0, col_b = 0\<rparr>)
          [(5, \<lparr>col_r = 0x12, col_g = 0x56, col_b = 0x9A\<rparr>),
           (3, \<lparr>col_r = 0xFF, col_g = 0x80, col_b = 0x00\<rparr>),
           (5, \<lparr>col_r = 0x01, col_g = 0x02, col_b = 0x03\<rparr>)] ! 4
       = \<lparr>col_r = 0, col_g = 0, col_b = 0\<rparr>"
proof -
  let ?buf = "[0, 0, 0, 0, 0, 0, 0, 2,
      0, 5, 0x12, 0x34, 0x56, 0x78, 0x9A, 0xBC,
      0, 3, 0xFF, 0xFF, 0x80, 0x00, 0x00, 0x01,
      0, 5, 0x01, 0x00, 0x02, 0x00, 0x03, 0x00] :: uint8 list"
  let ?black = "\<lparr>col_r = 0, col_g = 0, col_b = 0\<rparr>"
  let ?s = "\<lparr>surface_w = 2, surface_h = 2, BitsPerPixel = 8, masks = Some (0xff, 0xff, 0xff),
      pitch = 4, pixels = [0, 0, 0, 0, 0, 0, 0, 0],
      palette = Some (replicate 256 ?black)\<rparr>"
  let ?es = "[(5, \<lparr>col_r = 0x12, col_g = 0x56, col_b = 0x9A\<rparr>),
           (3, \<lparr>col_r = 0xFF, col_g = 0x80, col_b = 0x00\<rparr>),
           (5, \<lparr>col_r = 0x01, col_g = 0x02, col_b = 0x03\<rparr>)]"
  have n: "unat (be16 ?buf (0 + 6)) + 1 = 3"
    by code_simp
  have es: "?es = table_entries ?buf (0 + 8) (unat (be16 ?buf (0 + 6)) + 1)"
    by code_simp
  have len: "0 + 8 + 8 * (unat (be16 ?buf (0 + 6)) + 1) \<le> length ?buf"
    unfolding n by simp
  have pal: "palette ?s = Some (replicate 256 ?black)"
    by simp
  note t = color_table_entries [OF pal _ len es]
  have t': "color_table ?buf 0x0098 0 ?s =
           Inr (0 + 8 + 8 * (unat (be16 ?buf (0 + 6)) + 1),
                ?s\<lparr>palette := Some (foldl set_color (replicate 256 ?black) ?es)\<rparr>)
         \<and> (\<forall>k < length (replicate 256 ?black).
               foldl set_color (replicate 256 ?black) ?es ! k =
                 (case map_of (rev ?es) k of None \<Rightarrow> replicate 256 ?black ! k | Some c \<Rightarrow> c))
         \<and> color_table ?buf 0x009a 0 ?s = Inr (0, ?s)"
    by (rule t) simp
  have 1: "color_table ?buf 0x0098 0 ?s =
      Inr (32, ?s\<lparr>palette := Some (foldl set_color (replicate 256 ?black) ?es)\<rparr>)"
    using t' [THEN conjunct1] unfolding n by simp
  have 2: "foldl set_color (replicate 256 ?black) ?es ! 5 = \<lparr>col_r = 0x01, col_g = 0x02, col_b = 0x03\<rparr>"
    using t' [THEN conjunct2, THEN conjunct1, rule_format, of 5] by simp
  have 3: "foldl set_color (replicate 256 ?black) ?es ! 4 = ?black"
    using t' [THEN conjunct2, THEN conjunct1, rule_format, of 4] by simp
  show ?thesis
    using 1 2 3 by simp
qed

lemma opcode_step_surf:
  "opcode_step H buf st = Inr st' \<Longrightarrow> surf st' \<noteq> surf st \<Longrightarrow> done_flag st'"
  by (auto simp: opcode_step_def bnd_Inr_iff Let_def split: if_splits
      dest!: packed_copy_bits_done)

lemma opcode_step_final:
  "SDL_ReadBE16 buf (cursor st) = Inr (opcode, p) \<Longrightarrow>
   opcode = 0x00ff \<or> opcode = 0x0098 \<or> opcode = 0x009a \<Longrightarrow>
   opcode_step H buf st = Inr st' \<Longrightarrow> done_flag st'"
  by (auto simp: opcode_step_def bnd_def Let_def split: if_splits
      dest!: packed_copy_bits_done)

lemma picture_loop_final:
  "picture_loop H buf st = Inr st' \<Longrightarrow> done_flag st'"
proof (induction H buf st rule: picture_loop.induct)
  case (1 H buf st)
  then show ?case
    by (auto simp: picture_loop.simps [of H buf st] split: if_splits sum.splits)
qed

text \<open>
  Claim C8. One decode call yields at most one image. Once \<open>done\<close> is set the loop
  returns at once, with the cursor where it stands: no further opcode is read. An
  iteration that reads the end-of-picture opcode or an image opcode sets \<open>done\<close> when it
  returns, and so does every iteration that changes the surface \<open>s\<close> (only the image
  opcode creates one); the loop then returns the state of that very iteration. A fatal
  error of an iteration is the result of the loop. Whenever the loop returns, \<open>done\<close> is
  set.
\<close>

theorem picture_loop_one_image:
  "(done_flag st \<longrightarrow> picture_loop H buf st = Inr st)
   \<and> (SDL_ReadBE16 buf (cursor st) = Inr (opcode, p)
        \<and> (opcode = 0x00ff \<or> opcode = 0x0098 \<or> opcode = 0x009a)
        \<and> opcode_step H buf st = Inr st' \<longrightarrow> done_flag st')
   \<and> (opcode_step H buf st = Inr st' \<and> surf st' \<noteq> surf st \<longrightarrow> done_flag st')
   \<and> (\<not> done_flag st \<and> opcode_step H buf st = Inr st' \<and> done_flag st' \<longrightarrow>
        picture_loop H buf st = Inr st')
   \<and> (\<not> done_flag st \<and> opcode_step H buf st = Inl e \<longrightarrow> picture_loop H buf st = Inl e)
   \<and> (picture_loop H buf st = Inr st'' \<longrightarrow> done_flag st'')"
proof -
  have "done_flag st \<longrightarrow> picture_loop H buf st = Inr st"
    by (simp add: picture_loop.simps [of H buf st])
  moreover have "SDL_ReadBE16 buf (cursor st) = Inr (opcode, p)
        \<and> (opcode = 0x00ff \<or> opcode = 0x0098 \<or> opcode = 0x009a)
        \<and> opcode_step H buf st = Inr st' \<longrightarrow> done_flag st'"
    using opcode_step_final [of buf st opcode p H st'] by blast
  moreover have "opcode_step H buf st = Inr st' \<and> surf st' \<noteq> surf st \<longrightarrow> done_flag st'"
    using opcode_step_surf [of H buf st st'] by blast
  moreover have "\<not> done_flag st \<and> opcode_step H buf st = Inr st' \<and> done_flag st' \<longrightarrow>
        picture_loop H buf st = Inr st'"
    by (simp add: picture_loop.simps [of H buf st] picture_loop.simps [of H buf st'])
  moreover have "\<not> done_flag st \<and> opcode_step H buf st = Inl e \<longrightarrow> picture_loop H buf st = Inl e"
    by (simp add: picture_loop.simps [of H buf st])
  moreover have "picture_loop H buf st = Inr st'' \<longrightarrow> done_flag st''"
    using picture_loop_final [of H buf st st''] by blast
  ultimately show ?thesis by blast
qed


theorem picture_loop_one_image_witness:
  "opcode_step example_host pict_2x2 \<lparr>cursor = 14, done_flag = False, surf = None\<rparr>
     = Inr \<lparr>cursor = 104, done_flag = True, surf = Some decoded_2x2\<rparr>
   \<and> picture_loop example_host pict_2x2 \<lparr>cursor = 14, done_flag = False, surf = None\<rparr>
     = Inr \<lparr>cursor = 104, done_flag = True, surf = Some decoded_2x2\<rparr>
   \<and> picture_loop example_host pict_2x2
       \<lparr>cursor = 104, done_flag = True, surf = Some decoded_2x2\<rparr>
     = Inr \<lparr>cursor = 104, done_flag = True, surf = Some decoded_2x2\<rparr>
   \<and> opcode_step example_host pict_2x2 \<lparr>cursor = 104, done_flag = False, surf = None\<rparr>
     = Inl (UnimplementedOpcode 0x0503)
   \<and> picture_loop example_host pict_2x2 \<lparr>cursor = 104, done_flag = False, surf = None\<rparr>
     = Inl (UnimplementedOpcode 0x0503)"
proof -
  let ?st0 = "\<lparr>cursor = 14, done_flag = False, surf = None\<rparr>"
  let ?st1 = "\<lparr>cursor = 104, done_flag = True, surf = Some decoded_2x2\<rparr>"
  let ?st2 = "\<lparr>cursor = 104, done_flag = False, surf = None\<rparr>"
  have step: "opcode_step example_host pict_2x2 ?st0 = Inr ?st1"
    by code_simp
  have after: "opcode_step example_host pict_2x2 ?st2 = Inl (UnimplementedOpcode 0x0503)"
    by code_simp
  have rd: "SDL_ReadBE16 pict_2x2 (cursor ?st0) = Inr (0x0098, 16)"
    by code_simp
  note t0 = picture_loop_one_image
    [of ?st0 example_host pict_2x2 "0x0098" 16 ?st1 "UnimplementedOpcode 0x0503" ?st1]
  note t1 = picture_loop_one_image
    [of ?st1 example_host pict_2x2 "0x0098" 16 ?st1 "UnimplementedOpcode 0x0503" ?st1]
  note t2 = picture_loop_one_image
    [of ?st2 example_host pict_2x2 "0x0098" 16 ?st1 "UnimplementedOpcode 0x0503" ?st1]
  have "done_flag ?st1"
    using t0 [THEN conjunct2, THEN conjunct1] rd step by simp
  then have loop: "picture_loop example_host pict_2x2 ?st0 = Inr ?st1"
    using t0 [THEN conjunct2, THEN conjunct2, THEN conjunct2, THEN conjunct1] step by simp
  have stay: "picture_loop example_host pict_2x2 ?st1 = Inr ?st1"
    using t1 [THEN conjunct1] by simp
  have fatal: "picture_loop example_host pict_2x2 ?st2 = Inl (UnimplementedOpcode 0x0503)"
    using t2 [THEN conjunct2, THEN conjunct2, THEN conjunct2, THEN conjunct2, THEN conjunct1]
      after by simp
  show ?thesis
    by (intro conjI) (fact step, fact loop, fact stay, fact after, fact fatal)
qed

section \<open>Truncated input and unsupported input\<close>

lemma bnd_Inl [simp]: "bnd (Inl e) f = Inl e"
  by (simp add: bnd_def)

lemma bnd_Inr [simp]: "bnd (Inr x) f = f x"
  by (simp add: bnd_def)























text \<open>
  Claim C2 at a depth outside 8, 16 and 32. The switch on the depth has no default case:
  for the depth 24 of \<open>pict_depth24\<close> the interpreter raises no error, passes the three
  masks uninitialised to the surface allocator (\<open>masks = None\<close>) and goes on to decode; the
  call returns a surface. For the depths 8, 16 and 32 the masks are the ones the claim
  names.
\<close>

theorem depth_24_decodes:
  "picture_to_surface example_host (Some pict_depth24) =
     Inr (Some \<lparr>surface_w = 2, surface_h = 2, BitsPerPixel = 24, masks = None, pitch = 8,
                pixels = [1, 2, 3, 4, 5, 6, 7, 8, 9, 10, 11, 12, 0, 0, 0, 0], palette = None\<rparr>)
   \<and> surface_masks 24 = None
   \<and> surface_masks 8 = Some (0xff, 0xff, 0xff)
   \<and> surface_masks 16 = Some (0x7c00, 0x03e0, 0x001f)
   \<and> surface_masks 32 = Some (0x00ff0000, 0x0000ff00, 0x000000ff)"
  by code_simp

text \<open>
  Claim C3 when \<open>malloc\<close> fails in \<open>uncompress_rle32\<close>. The function returns at once and
  reports nothing; \<open>uncompress_picture\<close> and \<open>picture_to_surface\<close> go on, and the call
  returns the freshly allocated surface with none of its pixels decoded, where the same
  resource decodes to the pixels of its scan line when \<open>malloc\<close> succeeds. No temporary
  buffer is left allocated on either exit.
\<close>

theorem malloc_failure_returns_surface:
  "picture_to_surface (example_host\<lparr>malloc_succeeds := (\<lambda>n. False)\<rparr>) (Some pict_depth32) =
     Inr (Some \<lparr>surface_w = 2, surface_h = 1, BitsPerPixel = 32,
                masks = Some (0x00ff0000, 0x0000ff00, 0x000000ff), pitch = 8,
                pixels = [0, 0, 0, 0, 0, 0, 0, 0], palette = None\<rparr>)
   \<and> picture_to_surface example_host (Some pict_depth32) =
     Inr (Some \<lparr>surface_w = 2, surface_h = 1, BitsPerPixel = 32,
                masks = Some (0x00ff0000, 0x0000ff00, 0x000000ff), pitch = 8,
                pixels = [0x33, 0x22, 0x11, 0, 0x33, 0x22, 0x11, 0], palette = None\<rparr>)
   \<and> uncompress_rle32 (example_host\<lparr>malloc_succeeds := (\<lambda>n. False)\<rparr>) pict_depth32 80 8
         [0, 0, 0, 0, 0, 0, 0, 0] 0 8 1 = Inr ([0, 0, 0, 0, 0, 0, 0, 0], 0)
   \<and> uncompress_rle32 example_host pict_depth32 80 8
         [0, 0, 0, 0, 0, 0, 0, 0] 0 8 1 = Inr ([0x33, 0x22, 0x11, 0, 0x33, 0x22, 0x11, 0], 0)"
  by code_simp

section \<open>The round trip with a reference encoder\<close>

text \<open>
  A reference PackBits encoder for one scan line, for both unit widths. The sources hold
  no encoder; this one is the development's own. A scan line is split into runs: three
  or more equal units in a row (at most 128) become a repeat run, the units between
  repeat runs become literal runs of at most 128 units. A repeat run of \<open>n\<close> units is
  written as the control byte \<open>-(n - 1)\<close> and the unit; a literal run of \<open>n\<close> units as the
  control byte \<open>n - 1\<close> and its units; a unit of width 2 is written high byte first. The
  packed line starts with the number of bytes that follow: two bytes, big-endian, when
  \<open>row_bytes > 250\<close>, one byte otherwise.
\<close>

datatype 'a run = Repeat nat 'a | Literal "'a list"

fun expand_run :: "'a run \<Rightarrow> 'a list" where
  "expand_run (Repeat n x) = replicate n x"
| "expand_run (Literal ys) = ys"

definition expand :: "'a run list \<Rightarrow> 'a list" where
  "expand rs = concat (map expand_run rs)"

fun same_prefix :: "'a \<Rightarrow> nat \<Rightarrow> 'a list \<Rightarrow> nat" where
  "same_prefix x 0 ys = 0"
| "same_prefix x (Suc k) [] = 0"
| "same_prefix x (Suc k) (y # ys) = (if y = x then Suc (same_prefix x k ys) else 0)"

fun add_literal :: "'a \<Rightarrow> 'a run list \<Rightarrow> 'a run list" where
  "add_literal x (Literal ys # rs) =
     (if length ys < 128 then Literal (x # ys) # rs else Literal [x] # Literal ys # rs)"
| "add_literal x rs = Literal [x] # rs"

fun valid_run :: "'a run \<Rightarrow> bool" where
  "valid_run (Repeat n x) = (2 \<le> n \<and> n \<le> 128)"
| "valid_run (Literal ys) = (1 \<le> length ys \<and> length ys \<le> 128)"

text \<open>
  For the bound on the length of the packed line: the literal runs of exactly 128 units,
  and a credit of one byte that a run list holds when it is empty or starts with a
  repeat run or with a literal run of 128 units.
\<close>

fun is_full :: "'a run \<Rightarrow> bool" where
  "is_full (Literal ys) = (length ys = 128)"
| "is_full (Repeat n x) = False"

definition full_runs :: "'a run list \<Rightarrow> nat" where
  "full_runs rs = length (filter is_full rs)"

fun credit :: "'a run list \<Rightarrow> nat" where
  "credit [] = 1"
| "credit (Repeat n x # rs) = 1"
| "credit (Literal ys # rs) = (if length ys = 128 then 1 else 0)"

lemma same_prefix_le: "same_prefix x k ys \<le> k \<and> same_prefix x k ys \<le> length ys"
  by (induction x k ys rule: same_prefix.induct) auto

lemma same_prefix_take:
  "take (same_prefix x k ys) ys = replicate (same_prefix x k ys) x"
  by (induction x k ys rule: same_prefix.induct) auto

function pack_runs :: "'a list \<Rightarrow> 'a run list" where
  "pack_runs [] = []"
| "pack_runs (x # xs) =
     (let n = same_prefix x 127 xs
      in if 2 \<le> n then Repeat (Suc n) x # pack_runs (drop n xs)
         else add_literal x (pack_runs xs))"
  by pat_completeness auto
termination
  by (relation "measure length") auto

definition unit_bytes :: "'a::len word \<Rightarrow> uint8 list" where
  "unit_bytes d = (if sizeof d = 1 then [ucast d] else [ucast (drop_bit 8 d), ucast d])"

fun encode_run :: "('a::len word) run \<Rightarrow> uint8 list" where
  "encode_run (Repeat n x) = word_of_int (1 - int n) # unit_bytes x"
| "encode_run (Literal ys) = word_of_nat (length ys - 1) # concat (map unit_bytes ys)"

definition encode_runs :: "('a::len word) run list \<Rightarrow> uint8 list" where
  "encode_runs rs = concat (map encode_run rs)"

definition pack_bits :: "nat \<Rightarrow> ('a::len word) list \<Rightarrow> uint8 list" where
  "pack_bits row_bytes line =
     (let body = encode_runs (pack_runs line); n = length body
      in (if row_bytes > 250 then [word_of_nat (n div 256), word_of_nat (n mod 256)]
          else [word_of_nat n]) @ body)"

lemma expand_simps [simp]:
  "expand [] = []" "expand (r # rs) = expand_run r @ expand rs"
  by (simp_all add: expand_def)

lemma encode_runs_simps [simp]:
  "encode_runs [] = []" "encode_runs (r # rs) = encode_run r @ encode_runs rs"
  by (simp_all add: encode_runs_def)

lemma expand_add_literal [simp]: "expand (add_literal x rs) = x # expand rs"
  by (induction x rs rule: add_literal.induct) simp_all

lemma valid_add_literal:
  "list_all valid_run rs \<Longrightarrow> list_all valid_run (add_literal x rs)"
  by (induction x rs rule: add_literal.induct) auto

lemma expand_pack_runs: "expand (pack_runs xs) = xs"
proof (induction xs rule: pack_runs.induct)
  case 1
  then show ?case by simp
next
  case (2 x xs)
  let ?n = "same_prefix x 127 xs"
  show ?case
  proof (cases "2 \<le> ?n")
    case True
    have "xs = take ?n xs @ drop ?n xs" by simp
    then have "xs = replicate ?n x @ drop ?n xs"
      by (simp only: same_prefix_take)
    moreover have "expand (pack_runs (drop ?n xs)) = drop ?n xs"
      using "2.IH"(1) True by simp
    ultimately have "x # xs = replicate (Suc ?n) x @ expand (pack_runs (drop ?n xs))"
      by simp
    with True show ?thesis by (simp add: Let_def)
  next
    case False
    with "2.IH"(2) show ?thesis by (simp add: Let_def)
  qed
qed

lemma valid_pack_runs: "list_all valid_run (pack_runs xs)"
proof (induction xs rule: pack_runs.induct)
  case 1
  then show ?case by simp
next
  case (2 x xs)
  let ?n = "same_prefix x 127 xs"
  have "?n \<le> 127" using same_prefix_le [of x 127 xs] by simp
  with 2 show ?case
    by (cases "2 \<le> ?n") (simp_all add: Let_def valid_add_literal)
qed

lemma ucast_ucast_8:
  "LENGTH('a::len) = 8 \<Longrightarrow> ucast (ucast (d :: 'a word) :: uint8) = d"
  by (rule bit_word_eqI) (auto simp: bit_simps)

lemma cat_split_16:
  "LENGTH('a::len) = 16 \<Longrightarrow>
   push_bit 8 (ucast (ucast (drop_bit 8 (d :: 'a word)) :: uint8)) OR ucast (ucast d :: uint8) = d"
  by (rule bit_word_eqI) (auto simp: bit_simps)

lemma length_unit_bytes:
  "LENGTH('a::len) = 8 \<or> LENGTH('a) = 16 \<Longrightarrow> length (unit_bytes (d :: 'a word)) = sizeof d"
  by (auto simp: unit_bytes_def sizeof_def)

lemma read_data_unit_bytes:
  fixes d :: "'a::len word"
  assumes "LENGTH('a) = 8 \<or> LENGTH('a) = 16"
  shows "read_data (pre @ unit_bytes d @ post) (length pre) = Inr (d, sizeof d)"
  using assms
  by (auto simp: read_data_def unit_bytes_def sizeof_def peek_def nth_append
      ucast_ucast_8 cat_split_16)


lemma sizeof_cases:
  "LENGTH('a::len) = 8 \<or> LENGTH('a) = 16 \<Longrightarrow> sizeof (d :: 'a word) = 1 \<or> sizeof d = 2"
  by (auto simp: sizeof_def)

lemma sizeof_const: "sizeof (d :: 'a::len word) = sizeof (0 :: 'a word)"
  by (simp add: sizeof_def)

lemma length_concat_unit_bytes:
  fixes ys :: "('a::len word) list"
  assumes "LENGTH('a) = 8 \<or> LENGTH('a) = 16"
  shows "length (concat (map unit_bytes ys)) = sizeof (0 :: 'a word) * length ys"
  using assms
  by (induction ys) (auto simp: unit_bytes_def sizeof_def)

lemma uncompressed_run_encoded:
  fixes ys :: "('a::len word) list"
  assumes "LENGTH('a) = 8 \<or> LENGTH('a) = 16"
  shows "src st = length pre \<Longrightarrow>
    uncompressed_run (pre @ concat (map unit_bytes ys) @ post) (length ys) st =
      Inr (st\<lparr>src := src st + sizeof (0 :: 'a word) * length ys,
              src_count := src_count st - int (sizeof (0 :: 'a word) * length ys),
              dst := dst st @ ys\<rparr>)"
proof (induction ys arbitrary: st pre)
  case Nil
  then show ?case by simp
next
  case (Cons y ys)
  let ?w = "sizeof (0 :: 'a word)"
  let ?st1 = "st\<lparr>src := src st + ?w, src_count := src_count st - int ?w, dst := dst st @ [y]\<rparr>"
  have rd: "read_data (pre @ unit_bytes y @ (concat (map unit_bytes ys) @ post)) (src st)
      = Inr (y, ?w)"
    using read_data_unit_bytes [OF assms, of pre y] Cons.prems
    by (simp add: sizeof_const [of y])
  have "src ?st1 = length (pre @ unit_bytes y)"
    using Cons.prems by (simp add: length_unit_bytes [OF assms] sizeof_const [of y])
  from Cons.IH [OF this, of ] have
    "uncompressed_run ((pre @ unit_bytes y) @ concat (map unit_bytes ys) @ post) (length ys) ?st1 =
      Inr (?st1\<lparr>src := src ?st1 + ?w * length ys,
              src_count := src_count ?st1 - int (?w * length ys),
              dst := dst ?st1 @ ys\<rparr>)" .
  with rd show ?case
    by (simp add: algebra_simps)
qed

lemma sint_word_of_int_8:
  "- 128 \<le> k \<Longrightarrow> k < 128 \<Longrightarrow> sint (word_of_int k :: uint8) = k"
  by (simp add: sint_sbintrunc' signed_take_bit_int_eq_self)

lemma sint_control_repeat:
  "2 \<le> n \<Longrightarrow> n \<le> 128 \<Longrightarrow> sint (word_of_int (1 - int n) :: uint8) = 1 - int n"
  by (rule sint_word_of_int_8) simp_all

lemma sint_control_literal:
  assumes "1 \<le> n" and "n \<le> 128"
  shows "sint (word_of_nat (n - 1) :: uint8) = int n - 1"
proof -
  have "sint (word_of_int (int n - 1) :: uint8) = int n - 1"
    by (rule sint_word_of_int_8) (use assms in simp_all)
  moreover have "(word_of_nat (n - 1) :: uint8) = word_of_int (int n - 1)"
    using assms by (simp add: of_nat_diff)
  ultimately show ?thesis by simp
qed


lemma length_encode_run:
  fixes r :: "('a::len word) run"
  assumes "LENGTH('a) = 8 \<or> LENGTH('a) = 16"
  shows "length (encode_run r) = 1 + sizeof (0 :: 'a word) * (case r of Repeat n x \<Rightarrow> 1 | Literal ys \<Rightarrow> length ys)"
  using assms
  by (cases r) (simp_all add: length_unit_bytes length_concat_unit_bytes, simp add: sizeof_def)

lemma unpack_run_encoded:
  fixes r :: "('a::len word) run"
  assumes w: "LENGTH('a) = 8 \<or> LENGTH('a) = 16" and v: "valid_run r"
    and s: "src st = length pre"
  shows "unpack_run (pre @ encode_run r @ post) st =
      Inr (st\<lparr>src := src st + length (encode_run r),
              src_count := src_count st - int (length (encode_run r)),
              dst := dst st @ expand_run r\<rparr>)"
proof (cases r)
  case (Repeat n x)
  let ?c = "word_of_int (1 - int n) :: uint8"
  from v Repeat have n: "2 \<le> n" "n \<le> 128" by simp_all
  have pk: "peek (pre @ encode_run r @ post) (src st) = Inr ?c"
    using Repeat s by (simp add: peek_def nth_append)
  have rd: "read_data (pre @ encode_run r @ post) (src st + 1) = Inr (x, sizeof x)"
    using read_data_unit_bytes [OF w, of "pre @ [?c]" x post] Repeat s by simp
  have c: "sint ?c = 1 - int n"
    using n by (rule sint_control_repeat)
  have "nat (- sint ?c + 1) = n"
    unfolding c using n by simp
  with pk rd c n show ?thesis
    unfolding unpack_run_def Repeat
    by (simp add: Let_def length_unit_bytes [OF w] algebra_simps)
next
  case (Literal ys)
  let ?c = "word_of_nat (length ys - 1) :: uint8"
  from v Literal have n: "1 \<le> length ys" "length ys \<le> 128" by simp_all
  have pk: "peek (pre @ encode_run r @ post) (src st) = Inr ?c"
    using Literal s by (simp add: peek_def nth_append)
  have c: "sint ?c = int (length ys) - 1"
    using n by (rule sint_control_literal)
  then have cnt: "nat (sint ?c + 1) = length ys" by simp
  let ?st1 = "st\<lparr>src := src st + 1, src_count := src_count st - 1\<rparr>"
  have "src ?st1 = length (pre @ [?c])" using s by simp
  from uncompressed_run_encoded [OF w this, of ys post]
  have run: "uncompressed_run (pre @ encode_run r @ post) (length ys) ?st1 =
      Inr (?st1\<lparr>src := src ?st1 + sizeof (0 :: 'a word) * length ys,
              src_count := src_count ?st1 - int (sizeof (0 :: 'a word) * length ys),
              dst := dst ?st1 @ ys\<rparr>)"
    using Literal by simp
  from pk c cnt run n show ?thesis
    unfolding unpack_run_def Literal
    by (simp add: Let_def length_concat_unit_bytes [OF w] algebra_simps)
qed

lemma encode_run_nonempty: "1 \<le> int (length (encode_run r))"
  by (cases r) simp_all

lemma unpack_loop_encoded:
  fixes rs :: "('a::len word) run list"
  assumes w: "LENGTH('a) = 8 \<or> LENGTH('a) = 16"
  shows "list_all valid_run rs \<Longrightarrow> src st = length pre \<Longrightarrow>
    src_count st = int (length (encode_runs rs)) \<Longrightarrow>
    unpack_loop (pre @ encode_runs rs @ post) st =
      Inr (st\<lparr>src := length pre + length (encode_runs rs), src_count := 0,
              dst := dst st @ expand rs\<rparr>)"
proof (induction rs arbitrary: st pre)
  case Nil
  then show ?case
    by (simp add: unpack_loop.simps [of _ st])
next
  case (Cons r rs)
  let ?buf = "pre @ encode_runs (r # rs) @ post"
  let ?st1 = "st\<lparr>src := src st + length (encode_run r),
              src_count := src_count st - int (length (encode_run r)),
              dst := dst st @ expand_run r\<rparr>"
  have pos: "src_count st > 0"
    using Cons.prems(3) encode_run_nonempty [of r] by simp
  have run: "unpack_run ?buf st = Inr ?st1"
    using unpack_run_encoded [OF w, of r st pre "encode_runs rs @ post"] Cons.prems by simp
  have "unpack_loop ((pre @ encode_run r) @ encode_runs rs @ post) ?st1 =
      Inr (?st1\<lparr>src := length (pre @ encode_run r) + length (encode_runs rs), src_count := 0,
              dst := dst ?st1 @ expand rs\<rparr>)"
    by (rule Cons.IH) (use Cons.prems in simp_all)
  then have "unpack_loop ?buf ?st1 =
      Inr (st\<lparr>src := length pre + length (encode_runs (r # rs)), src_count := 0,
              dst := dst st @ expand (r # rs)\<rparr>)"
    by (simp add: add.assoc)
  with pos run show ?case
    by (simp add: unpack_loop.simps [of "pre @ encode_run r @ encode_runs rs @ post" st])
qed


lemma full_runs_simps [simp]:
  "full_runs [] = 0"
  "full_runs (r # rs) = (if is_full r then Suc (full_runs rs) else full_runs rs)"
  by (simp_all add: full_runs_def)

lemma full_runs_bound: "128 * full_runs rs \<le> length (expand rs)"
proof (induction rs)
  case Nil
  then show ?case by simp
next
  case (Cons r rs)
  then show ?case by (cases r) auto
qed

lemma add_literal_cost:
  fixes rs :: "('a::len word) run list"
  assumes w: "LENGTH('a) = 8 \<or> LENGTH('a) = 16" and v: "list_all valid_run rs"
  shows "length (encode_runs (add_literal x rs)) + credit (add_literal x rs) + full_runs rs
         = length (encode_runs rs) + credit rs + sizeof (0 :: 'a word) + full_runs (add_literal x rs)"
proof (cases rs)
  case Nil
  then show ?thesis
    using w by (simp add: length_unit_bytes sizeof_const [of x])
next
  case (Cons r rs')
  show ?thesis
  proof (cases r)
    case (Repeat n y)
    with Cons show ?thesis
      using w by (simp add: length_unit_bytes sizeof_const [of x])
  next
    case (Literal ys)
    with Cons v have "length ys \<le> 128" by simp
    with Cons Literal show ?thesis
      using w by (auto simp: length_unit_bytes sizeof_const [of x])
  qed
qed

lemma pack_runs_cost:
  fixes xs :: "('a::len word) list"
  assumes w: "LENGTH('a) = 8 \<or> LENGTH('a) = 16"
  shows "length (encode_runs (pack_runs xs)) + credit (pack_runs xs)
         \<le> sizeof (0 :: 'a word) * length xs + 1 + full_runs (pack_runs xs)"
proof (induction xs rule: pack_runs.induct)
  case 1
  then show ?case by simp
next
  case (2 x xs)
  let ?w = "sizeof (0 :: 'a word)"
  let ?n = "same_prefix x 127 xs"
  have w1: "1 \<le> ?w" using sizeof_cases [OF w, of 0] by auto
  show ?case
  proof (cases "2 \<le> ?n")
    case True
    let ?rest = "pack_runs (drop ?n xs)"
    have IH: "length (encode_runs ?rest) + credit ?rest
        \<le> ?w * length (drop ?n xs) + 1 + full_runs ?rest"
      using "2.IH"(1) True by simp
    have len: "length xs = ?n + length (drop ?n xs)"
      using same_prefix_le [of x 127 xs] by simp
    have "2 + ?w \<le> ?w * Suc ?n"
    proof -
      have "?w * 3 \<le> ?w * Suc ?n" using True by (intro mult_le_mono2) simp
      moreover have "2 + ?w \<le> ?w * 3" using w1 by simp
      ultimately show ?thesis by (rule le_trans [rotated])
    qed
    moreover have "?w * length (x # xs) = ?w * Suc ?n + ?w * length (drop ?n xs)"
      using len by (simp add: algebra_simps)
    ultimately have "length (encode_runs ?rest) + (1 + ?w) + 1
        \<le> ?w * length (x # xs) + 1 + full_runs ?rest"
      using IH by linarith
    with True show ?thesis
      using w by (simp add: Let_def length_unit_bytes sizeof_const [of x])
  next
    case False
    have IH: "length (encode_runs (pack_runs xs)) + credit (pack_runs xs)
        \<le> ?w * length xs + 1 + full_runs (pack_runs xs)"
      using "2.IH"(2) False by simp
    from add_literal_cost [OF w valid_pack_runs, of x xs] IH
    have "length (encode_runs (add_literal x (pack_runs xs))) + credit (add_literal x (pack_runs xs))
        \<le> ?w * length xs + ?w + 1 + full_runs (add_literal x (pack_runs xs))"
      by linarith
    with False show ?thesis by (simp add: Let_def)
  qed
qed

lemma pack_runs_length:
  fixes xs :: "('a::len word) list"
  assumes w: "LENGTH('a) = 8 \<or> LENGTH('a) = 16"
  shows "length (encode_runs (pack_runs xs))
         \<le> sizeof (0 :: 'a word) * length xs + 1 + length xs div 128"
proof -
  have "128 * full_runs (pack_runs xs) \<le> length xs"
    using full_runs_bound [of "pack_runs xs"] by (simp add: expand_pack_runs)
  then have "full_runs (pack_runs xs) \<le> length xs div 128" by simp
  with pack_runs_cost [OF w, of xs] show ?thesis by linarith
qed


lemma int_be:
  "push_bit 8 (uint (b0::uint8)) OR uint (b1::uint8) = uint b0 * 256 + uint b1"
proof -
  have "push_bit 8 (uint b0) + uint b1 = push_bit 8 (uint b0) OR uint b1"
    by (rule disjunctive_add) (auto simp: bit_simps dest: bit_imp_le_length)
  then show ?thesis by (simp add: push_bit_eq_mult)
qed

lemma uint_word_of_nat_8: "m < 256 \<Longrightarrow> uint (word_of_nat m :: uint8) = int m"
  by (simp add: unsigned_of_nat take_bit_nat_eq_self)

lemma read_count_prefix:
  assumes "if row_bytes > 250 then n < 65536 else n < 256"
  shows "read_count
           (pre @ (if row_bytes > 250 then [word_of_nat (n div 256), word_of_nat (n mod 256)]
                   else [word_of_nat n]) @ rest) (length pre) row_bytes
         = Inr (int n, length pre + (if row_bytes > 250 then 2 else 1))"
proof (cases "row_bytes > 250")
  case True
  with assms have "n div 256 < 256" by simp
  then have hi: "uint (word_of_nat (n div 256) :: uint8) = int (n div 256)"
    by (rule uint_word_of_nat_8)
  have lo: "uint (word_of_nat (n mod 256) :: uint8) = int (n mod 256)"
    by (rule uint_word_of_nat_8) simp
  have "int (n div 256) * 256 + int (n mod 256) = int n"
    by (simp add: of_nat_div of_nat_mod)
  with True hi lo show ?thesis
    by (simp add: read_count_def peek_def nth_append int_be)
next
  case False
  with assms have "uint (word_of_nat n :: uint8) = int n"
    by (simp add: uint_word_of_nat_8)
  with False show ?thesis
    by (simp add: read_count_def peek_def nth_append)
qed

text \<open>
  Claim C9. For every scan line of units of width 1 or 2 whose \<open>row_bytes\<close> (the width
  times the number of units) fits the 14 bits the format gives it: packing the line with
  the reference encoder, length prefix included, and unpacking the result with
  \<open>unpack_bits\<close> gives back exactly the line, and the source pointer returned stands
  right after the packed line, wherever in a buffer the packed line lies.
\<close>

theorem pack_bits_roundtrip:
  fixes line :: "('a::len word) list"
  assumes "LENGTH('a) = 8 \<or> LENGTH('a) = 16"
    and "row_bytes = sizeof (0 :: 'a word) * length line"
    and "row_bytes \<le> 0x3fff"
  shows "unpack_bits (pre @ pack_bits row_bytes line @ post) (length pre) row_bytes
         = Inr (length pre + length (pack_bits row_bytes line), line)"
proof -
  let ?rs = "pack_runs line"
  let ?body = "encode_runs ?rs"
  let ?n = "length ?body"
  let ?prefix = "if row_bytes > 250 then [word_of_nat (?n div 256), word_of_nat (?n mod 256)]
                 else [word_of_nat ?n] :: uint8 list"
  let ?k = "if row_bytes > 250 then 2 else 1 :: nat"
  have packed: "pack_bits row_bytes line = ?prefix @ ?body"
    by (simp add: pack_bits_def Let_def)
  have w1: "1 \<le> sizeof (0 :: 'a word)"
    using sizeof_cases [OF assms(1), of 0] by auto
  then have units: "length line \<le> row_bytes"
    unfolding assms(2) by simp
  have bound: "?n \<le> row_bytes + 1 + length line div 128"
    using pack_runs_length [OF assms(1), of line] assms(2) by simp
  have fits: "if row_bytes > 250 then ?n < 65536 else ?n < 256"
  proof (cases "row_bytes > 250")
    case True
    with bound units assms(3) show ?thesis by simp
  next
    case False
    with units have "length line div 128 \<le> 1" by simp
    with False bound show ?thesis by simp
  qed
  have cnt: "read_count (pre @ ?prefix @ ?body @ post) (length pre) row_bytes
      = Inr (int ?n, length pre + ?k)"
    by (rule read_count_prefix [OF fits])
  let ?st = "\<lparr>src = length pre + ?k, src_count = int ?n, dst = [] :: 'a word list\<rparr>"
  have "src ?st = length (pre @ ?prefix)" and "src_count ?st = int (length ?body)"
    by simp_all
  from unpack_loop_encoded [OF assms(1) valid_pack_runs this, of post]
  have loop: "unpack_loop (pre @ ?prefix @ ?body @ post) ?st
      = Inr \<lparr>src = length pre + length (?prefix @ ?body), src_count = 0, dst = line\<rparr>"
    by (simp add: expand_pack_runs add.assoc)
  show ?thesis
    unfolding packed unpack_bits_def using cnt loop by simp
qed


theorem pack_bits_roundtrip_witness:
  "pack_bits 11 [1, 1, 1, 2, 3, 3, 4, 4, 4, 4, 5 :: uint8]
     = [10, 254, 1, 2, 2, 3, 3, 253, 4, 0, 5]
   \<and> unpack_bits [10, 254, 1, 2, 2, 3, 3, 253, 4, 0, 5] 0 11
     = Inr (11, [1, 1, 1, 2, 3, 3, 4, 4, 4, 4, 5 :: uint8])
   \<and> pack_bits 22 [1, 1, 1, 2, 3, 3, 4, 4, 4, 4, 0x1234 :: uint16]
     = [16, 254, 0, 1, 2, 0, 2, 0, 3, 0, 3, 253, 0, 4, 0, 0x12, 0x34]
   \<and> unpack_bits [16, 254, 0, 1, 2, 0, 2, 0, 3, 0, 3, 253, 0, 4, 0, 0x12, 0x34] 0 22
     = Inr (17, [1, 1, 1, 2, 3, 3, 4, 4, 4, 4, 0x1234 :: uint16])
   \<and> pack_bits 300 (replicate 300 (7 :: uint8)) = [0, 6, 129, 7, 129, 7, 213, 7]
   \<and> unpack_bits [0, 6, 129, 7, 129, 7, 213, 7] 0 300 = Inr (8, replicate 300 (7 :: uint8))"
proof -
  let ?l8 = "[1, 1, 1, 2, 3, 3, 4, 4, 4, 4, 5] :: uint8 list"
  let ?l16 = "[1, 1, 1, 2, 3, 3, 4, 4, 4, 4, 0x1234] :: uint16 list"
  let ?l300 = "replicate 300 (7 :: uint8)"
  have e8: "pack_bits 11 ?l8 = [10, 254, 1, 2, 2, 3, 3, 253, 4, 0, 5]"
    by code_simp
  have e16: "pack_bits 22 ?l16
      = [16, 254, 0, 1, 2, 0, 2, 0, 3, 0, 3, 253, 0, 4, 0, 0x12, 0x34]"
    by code_simp
  have e300: "pack_bits 300 ?l300 = [0, 6, 129, 7, 129, 7, 213, 7]"
    by code_simp
  have "unpack_bits ([] @ pack_bits 11 ?l8 @ []) (length ([] :: uint8 list)) 11
      = Inr (length ([] :: uint8 list) + length (pack_bits 11 ?l8), ?l8)"
    by (rule pack_bits_roundtrip) (simp_all add: sizeof_def)
  then have d8: "unpack_bits [10, 254, 1, 2, 2, 3, 3, 253, 4, 0, 5] 0 11 = Inr (11, ?l8)"
    unfolding e8 by simp
  have "unpack_bits ([] @ pack_bits 22 ?l16 @ []) (length ([] :: uint8 list)) 22
      = Inr (length ([] :: uint8 list) + length (pack_bits 22 ?l16), ?l16)"
    by (rule pack_bits_roundtrip) (simp_all add: sizeof_def)
  then have d16: "unpack_bits [16, 254, 0, 1, 2, 0, 2, 0, 3, 0, 3, 253, 0, 4, 0, 0x12, 0x34] 0 22
      = Inr (17, ?l16)"
    unfolding e16 by simp
  have "unpack_bits ([] @ pack_bits 300 ?l300 @ []) (length ([] :: uint8 list)) 300
      = Inr (length ([] :: uint8 list) + length (pack_bits 300 ?l300), ?l300)"
    by (rule pack_bits_roundtrip) (simp_all add: sizeof_def)
  then have d300: "unpack_bits [0, 6, 129, 7, 129, 7, 213, 7] 0 300 = Inr (8, ?l300)"
    unfolding e300 by simp
  show ?thesis
    by (intro conjI) (fact e8, fact d8, fact e16, fact d16, fact e300, fact d300)
qed

end
